theory Spec2Isabelle
  imports
    Main
    "HOL-Library.Multiset"
    "HOL-Library.Char_ord"
    "HOL-Library.List_Lexorder"
    "HOL-Library.AList"
begin

section \<open>Python values used by the Immigrant Helper Tool\<close>

text \<open>
  The source is \<^verbatim>\<open>IMMIGRANT_HELPER_TOOL.py\<close>. Python strings are modelled as
  \<^typ>\<open>string\<close>, one \<^typ>\<open>char\<close> per code point in the range 0..255 (Latin-1), on
  which \<^verbatim>\<open>str.lower\<close>, \<^verbatim>\<open>str.isalpha\<close> and \<^verbatim>\<open>str.isspace\<close> are given by the
  tables below. Python compares strings lexicographically by code point, which is the
  order of \<^theory_text>\<open>List_Lexorder\<close> over \<^theory_text>\<open>Char_ord\<close>.
  Exceptions are values of \<open>py_error\<close>; a function that can raise returns
  \<open>py_error + 'a\<close>.
\<close>

datatype py_error = TypeError | IndexError | KeyError

definition py_index :: "'a list \<Rightarrow> int \<Rightarrow> py_error + 'a" where
  "py_index xs i =
     (if 0 \<le> i \<and> i < int (length xs) then Inr (xs ! nat i)
      else if - int (length xs) \<le> i \<and> i < 0 then Inr (xs ! nat (int (length xs) + i))
      else Inl IndexError)"

text \<open>
  \<open>py_index xs i\<close> is \<^verbatim>\<open>xs[i]\<close>: an index from \<open>-len(xs)\<close> to \<open>-1\<close> counts from
  the end of the list, and any index outside \<open>-len(xs) .. len(xs) - 1\<close> raises IndexError.
\<close>

subsection \<open>Strings\<close>

text \<open>
  \<open>is_space\<close>, \<open>is_alpha\<close> and \<open>lower_char\<close> are \<^verbatim>\<open>str.isspace\<close>,
  \<^verbatim>\<open>str.isalpha\<close> and \<^verbatim>\<open>str.lower\<close> on one code point below 256:
  white space is 0x09-0x0D, 0x1C-0x20, 0x85 and 0xA0; the letters are A-Z, a-z, 0xAA, 0xB5,
  0xBA, 0xC0-0xD6, 0xD8-0xF6 and 0xF8-0xFF; the upper-case letters A-Z, 0xC0-0xD6 and
  0xD8-0xDE have their lower-case form 32 places higher.
\<close>

definition is_space :: "char \<Rightarrow> bool" where
  "is_space c =
     (let n = (of_char c :: nat)
      in (9 \<le> n \<and> n \<le> 13) \<or> (28 \<le> n \<and> n \<le> 32) \<or> n = 133 \<or> n = 160)"

definition is_alpha :: "char \<Rightarrow> bool" where
  "is_alpha c =
     (let n = (of_char c :: nat)
      in (65 \<le> n \<and> n \<le> 90) \<or> (97 \<le> n \<and> n \<le> 122) \<or> n = 170 \<or> n = 181 \<or> n = 186 \<or>
         (192 \<le> n \<and> n \<le> 214) \<or> (216 \<le> n \<and> n \<le> 246) \<or> (248 \<le> n \<and> n \<le> 255))"

definition lower_char :: "char \<Rightarrow> char" where
  "lower_char c =
     (let n = (of_char c :: nat)
      in if (65 \<le> n \<and> n \<le> 90) \<or> (192 \<le> n \<and> n \<le> 214) \<or> (216 \<le> n \<and> n \<le> 222)
         then char_of (n + 32) else c)"

definition str_lower :: "string \<Rightarrow> string" where
  \<comment> \<open>\<^verbatim>\<open>s.lower()\<close>\<close>
  "str_lower s = map lower_char s"

definition str_strip :: "string \<Rightarrow> string" where
  \<comment> \<open>\<^verbatim>\<open>s.strip()\<close>: leading and trailing white space removed\<close>
  "str_strip s = rev (dropWhile is_space (rev (dropWhile is_space s)))"

definition str_isalpha :: "string \<Rightarrow> bool" where
  \<comment> \<open>\<^verbatim>\<open>s.isalpha()\<close>: at least one character, and all of them letters\<close>
  "str_isalpha s = (s \<noteq> [] \<and> list_all is_alpha s)"

definition remove_spaces :: "string \<Rightarrow> string" where
  \<comment> \<open>\<^verbatim>\<open>s.replace(" ", "")\<close>: only the space character 0x20 is removed\<close>
  "remove_spaces s = filter (\<lambda>c. c \<noteq> CHR '' '') s"

subsection \<open>Dictionaries\<close>

text \<open>
  A Python \<^verbatim>\<open>dict\<close> keeps its keys in insertion order, and \<^verbatim>\<open>list(d.keys())\<close>
  reads them in that order: a dictionary is an association list, \<^verbatim>\<open>d[k] = v\<close> is
  \<^const>\<open>AList.update\<close> (the value is replaced in place, a new key goes to the end),
  \<^verbatim>\<open>k in d\<close> is \<open>dict_contains\<close> and \<^verbatim>\<open>d[k]\<close> is \<open>dict_get\<close>, which raises
  KeyError on a missing key.
\<close>

definition dict_contains :: "('k \<times> 'v) list \<Rightarrow> 'k \<Rightarrow> bool" where
  "dict_contains d k = (map_of d k \<noteq> None)"

definition dict_get :: "('k \<times> 'v) list \<Rightarrow> 'k \<Rightarrow> py_error + 'v" where
  "dict_get d k = (case map_of d k of None \<Rightarrow> Inl KeyError | Some v \<Rightarrow> Inr v)"

definition dict_keys :: "('k \<times> 'v) list \<Rightarrow> 'k list" where
  "dict_keys d = map fst d"

section \<open>Resource: selection sort and binary search\<close>

text \<open>
  \<^verbatim>\<open>
  def _selection_sort(self, data):
      for i in range(len(data)):
          min_index = i
          for j in range(i + 1, len(data)):
              if data[j] < data[min_index]:
                  min_index = j
          data[i], data[min_index] = data[min_index], data[i]
      return data
  \<close>
  The inner loop is \<open>selection_inner\<close> (state: \<open>j\<close> and \<open>min_index\<close>), the outer loop is
  \<open>selection_outer\<close> (state: the list and \<open>i\<close>). The swap evaluates both right-hand
  sides on the old list before it assigns.
\<close>

function selection_inner :: "'a::linorder list \<Rightarrow> nat \<Rightarrow> nat \<Rightarrow> nat" where
  "selection_inner data j min_index =
     (if j < length data
      then selection_inner data (j + 1) (if data ! j < data ! min_index then j else min_index)
      else min_index)"
  by pat_completeness auto
termination
  by (relation "measure (\<lambda>(data, j, min_index). length data - j)") auto

function selection_outer :: "'a::linorder list \<Rightarrow> nat \<Rightarrow> 'a list" where
  "selection_outer data i =
     (if i < length data
      then (let min_index = selection_inner data (i + 1) i
            in selection_outer (data[i := data ! min_index, min_index := data ! i]) (i + 1))
      else data)"
  by pat_completeness auto
termination
  by (relation "measure (\<lambda>(data, i). length data - i)") auto

definition selection_sort :: "'a::linorder list \<Rightarrow> 'a list" where
  "selection_sort data = selection_outer data 0"

text \<open>
  \<^verbatim>\<open>
  def _binary_search(self, sorted_list, target, left, right):
      if left <= right:
          mid = (left + right) // 2
          if sorted_list[mid] == target:
              return mid
          elif sorted_list[mid] < target:
              return self._binary_search(sorted_list, target, mid + 1, right)
          else:
              return self._binary_search(sorted_list, target, left, mid - 1)
      return -1
  \<close>
  \<open>left\<close>, \<open>right\<close> and \<open>mid\<close> are Python integers (\<open>right\<close> is \<open>-1\<close> on the empty
  list); \<open>//\<close> is floor division, as \<open>div\<close> on \<^typ>\<open>int\<close>.
\<close>

function binary_search :: "'a::linorder list \<Rightarrow> 'a \<Rightarrow> int \<Rightarrow> int \<Rightarrow> py_error + int" where
  "binary_search sorted_list target left right =
     (if left \<le> right
      then (let mid = (left + right) div 2
            in case py_index sorted_list mid of
                 Inl e \<Rightarrow> Inl e
               | Inr v \<Rightarrow>
                   if v = target then Inr mid
                   else if v < target then binary_search sorted_list target (mid + 1) right
                   else binary_search sorted_list target left (mid - 1))
      else Inr (- 1))"
  by pat_completeness auto
termination
  by (relation "measure (\<lambda>(sorted_list, target, left, right). nat (right - left + 1))") auto

text \<open>
  The indices at which \<open>binary_search\<close> evaluates \<^verbatim>\<open>sorted_list[mid]\<close>, in the order
  of the calls: the same control flow, recording \<open>mid\<close> instead of returning.
\<close>

function binary_search_reads :: "'a::linorder list \<Rightarrow> 'a \<Rightarrow> int \<Rightarrow> int \<Rightarrow> int list" where
  "binary_search_reads sorted_list target left right =
     (if left \<le> right
      then (let mid = (left + right) div 2
            in mid #
               (case py_index sorted_list mid of
                  Inl e \<Rightarrow> []
                | Inr v \<Rightarrow>
                    if v = target then []
                    else if v < target then binary_search_reads sorted_list target (mid + 1) right
                    else binary_search_reads sorted_list target left (mid - 1)))
      else [])"
  by pat_completeness auto
termination
  by (relation "measure (\<lambda>(sorted_list, target, left, right). nat (right - left + 1))") auto

section \<open>Records and console output\<close>

text \<open>
  \<^verbatim>\<open>Volunteer\<close> and \<^verbatim>\<open>Immigrant\<close> are the classes of the source; a progress log entry
  is the dictionary with the keys \<^verbatim>\<open>session_type\<close>, \<^verbatim>\<open>details\<close> and \<^verbatim>\<open>timestamp\<close>.
  The field names carry a prefix because the source uses the same words for parameters.
  The five subclasses of \<^verbatim>\<open>Volunteer\<close> only fix the expertise label.
\<close>

record volunteer =
  vol_name :: string
  vol_email :: string
  vol_expertise :: string
  vol_available_languages :: "string list"
  vol_availability :: bool

record log_entry =
  log_session_type :: string
  log_details :: string
  log_timestamp :: string

record immigrant =
  imm_name :: string
  imm_email :: string
  imm_native_language :: string
  imm_desired_language :: string
  imm_location :: string
  imm_goals :: "string list"
  imm_progress_log :: "log_entry list"

text \<open>
  An argument of a method that checks \<^verbatim>\<open>isinstance\<close> is a \<open>py_value\<close>: an object of
  one of the two classes, a string, or anything else (\<open>NoneObj\<close>).
\<close>

datatype py_value =
    VolunteerObj volunteer
  | ImmigrantObj immigrant
  | StrObj string
  | NoneObj

text \<open>
  Each \<^verbatim>\<open>print\<close> statement of the modelled methods is one constructor of \<open>message\<close>,
  carrying the values the source interpolates; the layout of the text
  (\<^verbatim>\<open>capitalize\<close>, \<^verbatim>\<open>", ".join\<close>) is not modelled. \<open>SaveData\<close> is the call
  \<^verbatim>\<open>save_data("mentors.json", ...)\<close> with the mentors it serialises; \<^verbatim>\<open>save_data\<close>
  catches its own exceptions.
\<close>

datatype message =
    InvalidLocation string
  | InvalidCategory string
  | InvalidName string
  | ResourceAdded string string string
  | ResourcesUnder string string
  | ResourceNames "string list"
  | NoResourcesInCategory string string
  | NoResourcesForLocation string
  | MentorAdded volunteer
  | ErrorAddingMentor py_error
  | NoMentorAvailable
  | MentorMatchingError py_error
  | ProgressUpdated string string string
  | AvailabilityUpdated string bool
  | SaveData "volunteer list"

definition Volunteer :: "string \<Rightarrow> string \<Rightarrow> string \<Rightarrow> string list \<Rightarrow> bool \<Rightarrow> volunteer" where
  \<comment> \<open>\<^verbatim>\<open>Volunteer.__init__\<close>\<close>
  "Volunteer name email expertise available_languages availability =
     \<lparr>vol_name = name, vol_email = email, vol_expertise = expertise,
      vol_available_languages = map (\<lambda>lang. str_lower (str_strip lang)) available_languages,
      vol_availability = availability\<rparr>"

definition set_availability :: "volunteer \<Rightarrow> bool \<Rightarrow> volunteer \<times> message list" where
  "set_availability self status =
     (self\<lparr>vol_availability := status\<rparr>, [AvailabilityUpdated (vol_name self) status])"

definition Immigrant :: "string \<Rightarrow> string \<Rightarrow> string \<Rightarrow> string \<Rightarrow> string \<Rightarrow> string list \<Rightarrow> immigrant" where
  \<comment> \<open>\<^verbatim>\<open>Immigrant.__init__\<close>\<close>
  "Immigrant name email native_language desired_language location goals =
     \<lparr>imm_name = name, imm_email = email, imm_native_language = native_language,
      imm_desired_language = desired_language, imm_location = location, imm_goals = goals,
      imm_progress_log = []\<rparr>"

definition update_progress :: "immigrant \<Rightarrow> string \<Rightarrow> string \<Rightarrow> string \<Rightarrow> immigrant \<times> message list" where
  \<comment> \<open>\<open>now\<close> is the text of \<^verbatim>\<open>datetime.now().strftime("%Y-%m-%d %H:%M:%S")\<close>\<close>
  "update_progress self session_type details now =
     (self\<lparr>imm_progress_log := imm_progress_log self @
         [\<lparr>log_session_type = session_type, log_details = details, log_timestamp = now\<rparr>]\<rparr>,
      [ProgressUpdated session_type details now])"

section \<open>MentorManager\<close>

text \<open>
  The state of a \<^verbatim>\<open>MentorManager\<close> is its list \<^verbatim>\<open>self.mentors\<close>, in insertion order.
  Every caller in the source builds a new \<^verbatim>\<open>Volunteer\<close> for each \<^verbatim>\<open>add_mentor\<close>, so
  the list holds the records by value. A method returns the new list with what it prints.

  \<^verbatim>\<open>
  def add_mentor(self, mentor, verbose=False):
      try:
          if not isinstance(mentor, Volunteer):
              raise TypeError("Only objects of type Volunteer ...")
          self.mentors.append(mentor)
          if verbose:
              print(f"Mentor added: {mentor}")
      except TypeError as e:
          print(f"Error adding mentor: {e}")
      except Exception as e:
          print(f"An unexpected error occurred while adding a mentor: {e}")
  \<close>
  \<open>add_mentor_try\<close> is the body of the \<^verbatim>\<open>try\<close>, \<open>add_mentor\<close> adds the handlers.
\<close>

definition add_mentor_try :: "volunteer list \<Rightarrow> py_value \<Rightarrow> bool \<Rightarrow> py_error + volunteer list \<times> message list" where
  "add_mentor_try mentors mentor verbose =
     (case mentor of
        VolunteerObj v \<Rightarrow> Inr (mentors @ [v], if verbose then [MentorAdded v] else [])
      | _ \<Rightarrow> Inl TypeError)"

definition add_mentor :: "volunteer list \<Rightarrow> py_value \<Rightarrow> bool \<Rightarrow> volunteer list \<times> message list" where
  "add_mentor mentors mentor verbose =
     (case add_mentor_try mentors mentor verbose of
        Inr r \<Rightarrow> r
      | Inl e \<Rightarrow> (mentors, [ErrorAddingMentor e]))"

text \<open>
  \<^verbatim>\<open>
  for mentor in self.mentors:
      if mentor.expertise.lower() == expertise.lower() and mentor.availability:
          if immigrant.desired_language.lower() in map(str.lower, mentor.available_languages):
              mentor.availability = False
              save_data("mentors.json", {mentor.email: mentor.__dict__ for mentor in self.mentors})
              immigrant.update_progress("Mentor Matched", f"Matched with {mentor.name}")
              return mentor
  print("No mentor available.")
  return None
  \<close>
  \<open>find_mentor_loop\<close> is the \<^verbatim>\<open>for\<close> loop over the mentors not yet visited: it returns
  the list with the matched mentor's flag cleared, and that mentor, or \<open>None\<close> when the
  loop runs to its end. \<open>find_mentor_try\<close> is the body of the \<^verbatim>\<open>try\<close> with its two
  \<^verbatim>\<open>isinstance\<close> checks, \<open>find_mentor\<close> adds the handlers, which print and return
  \<^verbatim>\<open>None\<close>. The result is the new mentor list, the immigrant, the output and the
  returned mentor.
\<close>

fun find_mentor_loop :: "volunteer list \<Rightarrow> immigrant \<Rightarrow> string \<Rightarrow> (volunteer list \<times> volunteer) option" where
  "find_mentor_loop [] immigrant expertise = None"
| "find_mentor_loop (mentor # rest) immigrant expertise =
     (if str_lower (vol_expertise mentor) = str_lower expertise \<and> vol_availability mentor
      then (if str_lower (imm_desired_language immigrant)
                 \<in> set (map str_lower (vol_available_languages mentor))
            then Some (mentor\<lparr>vol_availability := False\<rparr> # rest, mentor\<lparr>vol_availability := False\<rparr>)
            else map_option (\<lambda>(ms, m). (mentor # ms, m)) (find_mentor_loop rest immigrant expertise))
      else map_option (\<lambda>(ms, m). (mentor # ms, m)) (find_mentor_loop rest immigrant expertise))"

definition find_mentor_try ::
  "volunteer list \<Rightarrow> py_value \<Rightarrow> py_value \<Rightarrow> string \<Rightarrow>
     py_error + volunteer list \<times> py_value \<times> message list \<times> volunteer option" where
  "find_mentor_try mentors immigrant expertise now =
     (case immigrant of
        ImmigrantObj imm \<Rightarrow>
          (case expertise of
             StrObj ex \<Rightarrow>
               (case find_mentor_loop mentors imm ex of
                  Some (mentors', mentor) \<Rightarrow>
                    (let (imm', out) =
                       update_progress imm ''Mentor Matched'' (''Matched with '' @ vol_name mentor) now
                     in Inr (mentors', ImmigrantObj imm', SaveData mentors' # out, Some mentor))
                | None \<Rightarrow> Inr (mentors, immigrant, [NoMentorAvailable], None))
           | _ \<Rightarrow> Inl TypeError)
      | _ \<Rightarrow> Inl TypeError)"

definition find_mentor ::
  "volunteer list \<Rightarrow> py_value \<Rightarrow> py_value \<Rightarrow> string \<Rightarrow>
     volunteer list \<times> py_value \<times> message list \<times> volunteer option" where
  "find_mentor mentors immigrant expertise now =
     (case find_mentor_try mentors immigrant expertise now of
        Inr r \<Rightarrow> r
      | Inl e \<Rightarrow> (mentors, immigrant, [MentorMatchingError e], None))"

text \<open>
  The three conditions of the loop's two \<^verbatim>\<open>if\<close> statements, as one predicate.
\<close>

definition mentor_matches :: "immigrant \<Rightarrow> string \<Rightarrow> volunteer \<Rightarrow> bool" where
  "mentor_matches immigrant expertise mentor =
     (str_lower (vol_expertise mentor) = str_lower expertise \<and> vol_availability mentor \<and>
      str_lower (imm_desired_language immigrant)
        \<in> set (map str_lower (vol_available_languages mentor)))"

section \<open>Resource: the catalog\<close>

text \<open>
  \<^verbatim>\<open>self.resource_db\<close> is a dictionary from location to a dictionary from category to
  the list of resource names.
  \<^verbatim>\<open>
  def add_resource(self, location, category, name, verbose=False):
      if not location.replace(" ", "").isalpha():
          print(f"Invalid location: ..."); return
      if not category.replace(" ", "").isalpha():
          print(f"Invalid category: ..."); return
      if not len(name.strip()) > 0:
          print(f"Invalid name: ..."); return
      location = location.strip().lower()
      category = category.strip().lower()
      name = name.strip()
      if location not in self.resource_db:
          self.resource_db[location] = {}
      if category not in self.resource_db[location]:
          self.resource_db[location][category] = []
      self.resource_db[location][category].append(name)
      if verbose:
          print(f"Resource '{name}' successfully added to ...")
  \<close>
  The inner dictionary and the list are changed in place in the source; the model writes
  them back under their keys.
\<close>

type_synonym resource_db = "(string \<times> (string \<times> string list) list) list"

definition add_resource ::
  "resource_db \<Rightarrow> string \<Rightarrow> string \<Rightarrow> string \<Rightarrow> bool \<Rightarrow> py_error + resource_db \<times> message list" where
  "add_resource resource_db location category name verbose =
     (if \<not> str_isalpha (remove_spaces location) then Inr (resource_db, [InvalidLocation location])
      else if \<not> str_isalpha (remove_spaces category) then Inr (resource_db, [InvalidCategory category])
      else if \<not> length (str_strip name) > 0 then Inr (resource_db, [InvalidName name])
      else
        (let location' = str_lower (str_strip location);
             category' = str_lower (str_strip category);
             name' = str_strip name;
             db1 = (if \<not> dict_contains resource_db location'
                    then AList.update location' [] resource_db else resource_db)
         in case dict_get db1 location' of
              Inl e \<Rightarrow> Inl e
            | Inr cats \<Rightarrow>
                (let cats1 = (if \<not> dict_contains cats category'
                              then AList.update category' [] cats else cats)
                 in case dict_get cats1 category' of
                      Inl e \<Rightarrow> Inl e
                    | Inr names \<Rightarrow>
                        Inr (AList.update location' (AList.update category' (names @ [name']) cats1) db1,
                             if verbose then [ResourceAdded name' category' location'] else []))))"

text \<open>
  \<^verbatim>\<open>
  def search_resources_by_category(self, location, category):
      location = location.strip().lower()
      category = category.strip().lower()
      sorted_locations = self._selection_sort(list(self.resource_db.keys()))
      location_index = self._binary_search(sorted_locations, location, 0, len(sorted_locations) - 1)
      if location_index != -1:
          actual_location = sorted_locations[location_index]
          sorted_categories = self._selection_sort(list(self.resource_db[actual_location].keys()))
          category_index = self._binary_search(sorted_categories, category, 0, len(sorted_categories) - 1)
          if category_index != -1:
              actual_category = sorted_categories[category_index]
              print(f"\nResources in '{actual_location.capitalize()}' under ...")
              print(", ".join(self.resource_db[actual_location][actual_category]))
          else:
              print(f"No resources found in '{location}' under category '{category}'.")
      else:
          print(f"No resources found for location '{location}'.")
  \<close>
  The method prints what it finds: the model returns the output, in which
  \<open>ResourceNames\<close> carries the list of names that the source joins. The sort works on a
  copy of the keys, so the catalog is not changed.
\<close>

definition search_resources_by_category ::
  "resource_db \<Rightarrow> string \<Rightarrow> string \<Rightarrow> py_error + message list" where
  "search_resources_by_category resource_db location category =
     (let location' = str_lower (str_strip location);
          category' = str_lower (str_strip category);
          sorted_locations = selection_sort (dict_keys resource_db)
      in case binary_search sorted_locations location' 0 (int (length sorted_locations) - 1) of
           Inl e \<Rightarrow> Inl e
         | Inr location_index \<Rightarrow>
             if location_index \<noteq> - 1
             then (case py_index sorted_locations location_index of
                     Inl e \<Rightarrow> Inl e
                   | Inr actual_location \<Rightarrow>
                       (case dict_get resource_db actual_location of
                          Inl e \<Rightarrow> Inl e
                        | Inr cats \<Rightarrow>
                            (let sorted_categories = selection_sort (dict_keys cats)
                             in case binary_search sorted_categories category' 0
                                       (int (length sorted_categories) - 1) of
                                  Inl e \<Rightarrow> Inl e
                                | Inr category_index \<Rightarrow>
                                    if category_index \<noteq> - 1
                                    then (case py_index sorted_categories category_index of
                                            Inl e \<Rightarrow> Inl e
                                          | Inr actual_category \<Rightarrow>
                                              (case dict_get cats actual_category of
                                                 Inl e \<Rightarrow> Inl e
                                               | Inr names \<Rightarrow>
                                                   Inr [ResourcesUnder actual_location actual_category,
                                                        ResourceNames names]))
                                    else Inr [NoResourcesInCategory location' category'])))
             else Inr [NoResourcesForLocation location'])"

text \<open>
  The catalogs that calls of \<^verbatim>\<open>add_resource\<close> build from the empty catalog of
  \<^verbatim>\<open>Resource.__init__\<close>.
\<close>

inductive reachable_db :: "resource_db \<Rightarrow> bool" where
  reachable_empty: "reachable_db []"
| reachable_add:
    "reachable_db db \<Longrightarrow> add_resource db location category name verbose = Inr (db', out)
       \<Longrightarrow> reachable_db db'"

definition keys_nonempty :: "resource_db \<Rightarrow> bool" where
  \<comment> \<open>no location key and no category key is the empty string\<close>
  "keys_nonempty db =
     list_all (\<lambda>(location, cats). location \<noteq> [] \<and> list_all (\<lambda>(category, names). category \<noteq> []) cats) db"

text \<open>
  Two spellings differ only by case or surrounding white space: each is a core with white
  space before and after it, and the cores are equal up to case.
\<close>

inductive same_spelling :: "string \<Rightarrow> string \<Rightarrow> bool" where
  same_spellingI:
    "list_all is_space p \<Longrightarrow> list_all is_space q \<Longrightarrow> list_all is_space p' \<Longrightarrow> list_all is_space q'
       \<Longrightarrow> str_lower u = str_lower u' \<Longrightarrow> same_spelling (p @ u @ q) (p' @ u' @ q')"

section \<open>The system: mentors and seekers\<close>

text \<open>
  \<^verbatim>\<open>main_menu\<close> holds one \<^verbatim>\<open>MentorManager\<close> and the dictionary \<^verbatim>\<open>immigrants_db\<close>
  from email to \<^verbatim>\<open>Immigrant\<close>. The steps are the ones its menus take on them: a
  volunteer registers (\<^verbatim>\<open>add_mentor\<close> of a new \<^verbatim>\<open>Volunteer\<close>, also when the mentors are
  loaded or prepopulated), a seeker registers, a seeker asks for a mentor
  (\<^verbatim>\<open>find_mentor\<close>), a volunteer updates the availability (\<^verbatim>\<open>set_availability\<close>).
\<close>

record system =
  sys_mentors :: "volunteer list"
  sys_immigrants :: "(string \<times> immigrant) list"

inductive reachable :: "system \<Rightarrow> bool" where
  reachable_init: "reachable \<lparr>sys_mentors = [], sys_immigrants = []\<rparr>"
| reachable_register_volunteer:
    "reachable s \<Longrightarrow>
     reachable (s\<lparr>sys_mentors := fst (add_mentor (sys_mentors s)
        (VolunteerObj (Volunteer name email expertise languages availability)) False)\<rparr>)"
| reachable_register_immigrant:
    "reachable s \<Longrightarrow>
     reachable (s\<lparr>sys_immigrants := AList.update email
        (Immigrant name email native_language desired_language location goals) (sys_immigrants s)\<rparr>)"
| reachable_find_mentor:
    "reachable s \<Longrightarrow> map_of (sys_immigrants s) email = Some imm \<Longrightarrow>
     find_mentor (sys_mentors s) (ImmigrantObj imm) (StrObj expertise) now
       = (mentors', ImmigrantObj imm', out, r) \<Longrightarrow>
     reachable (s\<lparr>sys_mentors := mentors', sys_immigrants := AList.update email imm' (sys_immigrants s)\<rparr>)"
| reachable_set_availability:
    "reachable s \<Longrightarrow> i < length (sys_mentors s) \<Longrightarrow>
     reachable (s\<lparr>sys_mentors := (sys_mentors s)[i := fst (set_availability (sys_mentors s ! i) status)]\<rparr>)"

text \<open>
  A match event that references a mentor is a log entry as \<^verbatim>\<open>find_mentor\<close> writes it:
  session type \<^verbatim>\<open>Mentor Matched\<close>, details \<^verbatim>\<open>Matched with\<close> and the mentor's name.
  \<open>one_match_event_each\<close> says that every unavailable mentor has exactly one of them
  in the logs of the seekers.
\<close>

definition is_match_event :: "volunteer \<Rightarrow> log_entry \<Rightarrow> bool" where
  "is_match_event mentor entry =
     (log_session_type entry = ''Mentor Matched'' \<and>
      log_details entry = ''Matched with '' @ vol_name mentor)"

definition match_events :: "system \<Rightarrow> volunteer \<Rightarrow> log_entry list" where
  "match_events s mentor =
     concat (map (\<lambda>(email, imm). filter (is_match_event mentor) (imm_progress_log imm))
               (sys_immigrants s))"

definition one_match_event_each :: "system \<Rightarrow> bool" where
  "one_match_event_each s =
     list_all (\<lambda>mentor. vol_availability mentor \<or> length (match_events s mentor) = 1) (sys_mentors s)"

text \<open>
  The invariant of the outer loop of the selection sort: every position before \<open>i\<close>
  holds an element that is at most every element after it.
\<close>

definition sorted_upto :: "'a::linorder list \<Rightarrow> nat \<Rightarrow> bool" where
  "sorted_upto data i \<longleftrightarrow> (\<forall>a b. a < i \<and> a \<le> b \<and> b < length data \<longrightarrow> data ! a \<le> data ! b)"

declare selection_inner.simps [simp del]
declare selection_outer.simps [simp del]
declare binary_search.simps [simp del]
declare binary_search_reads.simps [simp del]

section \<open>Selection sort is a sorting algorithm\<close>

lemma selection_inner_range:
  "m < length data \<Longrightarrow> selection_inner data j m < length data"
proof (induction data j m rule: selection_inner.induct)
  case (1 data j m)
  show ?case
    using "1.IH" "1.prems" by (subst selection_inner.simps) auto
qed

lemma selection_inner_lower:
  "i \<le> m \<Longrightarrow> i \<le> j \<Longrightarrow> i \<le> selection_inner data j m"
proof (induction data j m rule: selection_inner.induct)
  case (1 data j m)
  show ?case
    using "1.IH" "1.prems" by (subst selection_inner.simps) auto
qed

lemma selection_inner_least:
  "m < length data \<Longrightarrow>
   data ! selection_inner data j m \<le> data ! m \<and>
   (\<forall>k. j \<le> k \<and> k < length data \<longrightarrow> data ! selection_inner data j m \<le> data ! k)"
proof (induction data j m rule: selection_inner.induct)
  case (1 data j m)
  show ?case
  proof (cases "j < length data")
    case False
    then have "selection_inner data j m = m" by (subst selection_inner.simps) simp
    then show ?thesis using False by auto
  next
    case True
    let ?m' = "if data ! j < data ! m then j else m"
    have m': "?m' < length data" using True "1.prems" by simp
    have eq: "selection_inner data j m = selection_inner data (j + 1) ?m'"
      using True by (subst selection_inner.simps) simp
    from "1.IH"[OF True m']
    have ih: "data ! selection_inner data (j + 1) ?m' \<le> data ! ?m'"
      "\<And>k. j + 1 \<le> k \<Longrightarrow> k < length data \<Longrightarrow> data ! selection_inner data (j + 1) ?m' \<le> data ! k"
      by auto
    have a: "data ! ?m' \<le> data ! m" "data ! ?m' \<le> data ! j" by auto
    show ?thesis
    proof (intro conjI allI impI)
      show "data ! selection_inner data j m \<le> data ! m"
        using ih(1) a(1) unfolding eq by (rule order_trans)
    next
      fix k assume k: "j \<le> k \<and> k < length data"
      show "data ! selection_inner data j m \<le> data ! k"
      proof (cases "k = j")
        case True
        then show ?thesis using ih(1) a(2) unfolding eq by (metis order_trans)
      next
        case False
        then have "j + 1 \<le> k" using k by simp
        then show ?thesis using ih(2) k unfolding eq by simp
      qed
    qed
  qed
qed

lemma length_selection_outer: "length (selection_outer data i) = length data"
proof (induction data i rule: selection_outer.induct)
  case (1 data i)
  show ?case
    using "1.IH" by (subst selection_outer.simps) (simp add: Let_def)
qed

lemma mset_selection_outer: "mset (selection_outer data i) = mset data"
proof (induction data i rule: selection_outer.induct)
  case (1 data i)
  show ?case
  proof (cases "i < length data")
    case False
    then show ?thesis by (subst selection_outer.simps) simp
  next
    case True
    define m where "m = selection_inner data (i + 1) i"
    have m: "m < length data" unfolding m_def using True by (rule selection_inner_range)
    have "selection_outer data i = selection_outer (data[i := data ! m, m := data ! i]) (i + 1)"
      using True by (subst selection_outer.simps) (simp add: Let_def m_def)
    also have "mset \<dots> = mset (data[i := data ! m, m := data ! i])"
      using "1.IH"[OF True m_def] .
    also have "\<dots> = mset data" by (rule mset_swap[OF m True])
    finally show ?thesis .
  qed
qed

lemma sorted_upto_step:
  assumes inv: "sorted_upto data i" and i: "i < length data"
    and m: "m = selection_inner data (i + 1) i"
  shows "sorted_upto (data[i := data ! m, m := data ! i]) (i + 1)"
proof -
  let ?d = "data[i := data ! m, m := data ! i]"
  have mlen: "m < length data" unfolding m using i by (rule selection_inner_range)
  have im: "i \<le> m" unfolding m by (rule selection_inner_lower) simp_all
  have least: "\<And>k. i \<le> k \<Longrightarrow> k < length data \<Longrightarrow> data ! m \<le> data ! k"
  proof -
    fix k assume "i \<le> k" "k < length data"
    then show "data ! m \<le> data ! k"
      using selection_inner_least[OF i, of "i + 1"] unfolding m[symmetric]
      by (cases "k = i") auto
  qed
  have src: "\<And>b. i \<le> b \<Longrightarrow> b < length data \<Longrightarrow> \<exists>b'. i \<le> b' \<and> b' < length data \<and> ?d ! b = data ! b'"
  proof -
    fix b assume b: "i \<le> b" "b < length data"
    show "\<exists>b'. i \<le> b' \<and> b' < length data \<and> ?d ! b = data ! b'"
    proof (cases "b = m")
      case True
      then show ?thesis using i mlen by (intro exI[of _ i]) simp
    next
      case False
      show ?thesis
      proof (cases "b = i")
        case True
        then show ?thesis using False i mlen im by (intro exI[of _ m]) simp
      next
        case bi: False
        then show ?thesis using False b by (intro exI[of _ b]) simp
      qed
    qed
  qed
  show ?thesis
    unfolding sorted_upto_def
  proof (intro allI impI)
    fix a b assume ab: "a < i + 1 \<and> a \<le> b \<and> b < length ?d"
    then have blen: "b < length data" by simp
    show "?d ! a \<le> ?d ! b"
    proof (cases "a < i")
      case True
      then have da: "?d ! a = data ! a" using im by simp
      show ?thesis
      proof (cases "i \<le> b")
        case True
        from src[OF True blen] obtain b' where b': "i \<le> b'" "b' < length data" "?d ! b = data ! b'" by blast
        have "data ! a \<le> data ! b'" using inv \<open>a < i\<close> b' unfolding sorted_upto_def by simp
        then show ?thesis using da b'(3) by simp
      next
        case False
        then have "?d ! b = data ! b" using im by simp
        moreover have "data ! a \<le> data ! b" using inv True ab blen unfolding sorted_upto_def by simp
        ultimately show ?thesis using da by simp
      qed
    next
      case False
      then have ai: "a = i" using ab by simp
      have da: "?d ! a = data ! m" using ai i mlen by (cases "i = m") simp_all
      have "i \<le> b" using ab ai by simp
      from src[OF this blen] obtain b' where b': "i \<le> b'" "b' < length data" "?d ! b = data ! b'" by blast
      show ?thesis using least[OF b'(1,2)] da b'(3) by simp
    qed
  qed
qed

lemma sorted_selection_outer:
  "sorted_upto data i \<Longrightarrow> sorted (selection_outer data i)"
proof (induction data i rule: selection_outer.induct)
  case (1 data i)
  show ?case
  proof (cases "i < length data")
    case False
    have "sorted data"
      unfolding sorted_iff_nth_mono using "1.prems" False unfolding sorted_upto_def by auto
    then show ?thesis using False by (subst selection_outer.simps) simp
  next
    case True
    define m where "m = selection_inner data (i + 1) i"
    have "sorted (selection_outer (data[i := data ! m, m := data ! i]) (i + 1))"
      using "1.IH"[OF True m_def] sorted_upto_step[OF "1.prems" True m_def] by simp
    then show ?thesis
      using True by (subst selection_outer.simps) (simp add: Let_def m_def)
  qed
qed

lemma sorted_selection_sort: "sorted (selection_sort data)"
  unfolding selection_sort_def by (rule sorted_selection_outer) (simp add: sorted_upto_def)

lemma mset_selection_sort: "mset (selection_sort data) = mset data"
  unfolding selection_sort_def by (rule mset_selection_outer)

text \<open>
  C8: for every list of strings, \<open>selection_sort\<close> returns a permutation of its input
  (the same multiset of elements) in ascending lexicographic order.
\<close>

theorem selection_sort_sorted_permutation:
  fixes data :: "string list"
  shows "sorted (selection_sort data) \<and> mset (selection_sort data) = mset data"
  using sorted_selection_sort mset_selection_sort by blast

section \<open>Binary search\<close>

lemma py_index_in_range:
  "0 \<le> i \<Longrightarrow> i < int (length xs) \<Longrightarrow> py_index xs i = Inr (xs ! nat i)"
  by (simp add: py_index_def)

lemma midpoint_bounds:
  fixes left right :: int
  assumes "left \<le> right"
  shows "left \<le> (left + right) div 2" and "(left + right) div 2 \<le> right"
  using assms by linarith+

lemma binary_search_returns:
  "0 \<le> left \<Longrightarrow> right < int (length S) \<Longrightarrow>
   \<exists>r. binary_search S t left right = Inr r \<and> (r = - 1 \<or> left \<le> r \<and> r \<le> right)"
proof (induction S t left right rule: binary_search.induct)
  case (1 S t left right)
  show ?case
  proof (cases "left \<le> right")
    case False
    then show ?thesis by (subst binary_search.simps) simp
  next
    case True
    define mid where "mid = (left + right) div 2"
    have mb: "left \<le> mid" "mid \<le> right" unfolding mid_def using midpoint_bounds[OF True] by simp_all
    have idx: "py_index S mid = Inr (S ! nat mid)"
      using mb "1.prems" by (intro py_index_in_range) linarith+
    consider (eq) "S ! nat mid = t" | (lt) "S ! nat mid \<noteq> t" "S ! nat mid < t"
      | (gt) "S ! nat mid \<noteq> t" "\<not> S ! nat mid < t" by blast
    then show ?thesis
    proof cases
      case eq
      then show ?thesis using True idx mb
        by (subst binary_search.simps) (simp add: Let_def mid_def[symmetric])
    next
      case lt
      have "\<exists>r. binary_search S t (mid + 1) right = Inr r \<and> (r = - 1 \<or> mid + 1 \<le> r \<and> r \<le> right)"
        using "1.IH"(1)[OF True mid_def idx lt] mb "1.prems" by simp
      then obtain r where r: "binary_search S t (mid + 1) right = Inr r"
        "r = - 1 \<or> mid + 1 \<le> r \<and> r \<le> right" by blast
      have "binary_search S t left right = Inr r"
        using True idx lt r(1) by (subst binary_search.simps) (simp add: Let_def mid_def[symmetric])
      then show ?thesis using r(2) mb by auto
    next
      case gt
      have "\<exists>r. binary_search S t left (mid - 1) = Inr r \<and> (r = - 1 \<or> left \<le> r \<and> r \<le> mid - 1)"
        using "1.IH"(2)[OF True mid_def idx gt] mb "1.prems" by simp
      then obtain r where r: "binary_search S t left (mid - 1) = Inr r"
        "r = - 1 \<or> left \<le> r \<and> r \<le> mid - 1" by blast
      have "binary_search S t left right = Inr r"
        using True idx gt r(1) by (subst binary_search.simps) (simp add: Let_def mid_def[symmetric])
      then show ?thesis using r(2) mb by auto
    qed
  qed
qed

lemma binary_search_reads_bounds:
  "m \<in> set (binary_search_reads S t left right) \<Longrightarrow> left \<le> m \<and> m \<le> right"
proof (induction S t left right arbitrary: m rule: binary_search_reads.induct)
  case (1 S t left right)
  show ?case
  proof (cases "left \<le> right")
    case False
    then show ?thesis using "1.prems" by (subst (asm) binary_search_reads.simps) simp
  next
    case True
    define mid where "mid = (left + right) div 2"
    have mb: "left \<le> mid" "mid \<le> right" unfolding mid_def using midpoint_bounds[OF True] by simp_all
    have unf: "binary_search_reads S t left right =
        mid # (case py_index S mid of Inl e \<Rightarrow> []
               | Inr v \<Rightarrow> if v = t then []
                   else if v < t then binary_search_reads S t (mid + 1) right
                   else binary_search_reads S t left (mid - 1))"
      using True by (subst binary_search_reads.simps) (simp add: Let_def mid_def[symmetric])
    show ?thesis
    proof (cases "m = mid")
      case True
      then show ?thesis using mb by simp
    next
      case False
      show ?thesis
      proof (cases "py_index S mid")
        case (Inl e)
        then show ?thesis using "1.prems" False unfolding unf by simp
      next
        case (Inr v)
        consider (eq) "v = t" | (lt) "v \<noteq> t" "v < t" | (gt) "v \<noteq> t" "\<not> v < t" by blast
        then show ?thesis
        proof cases
          case eq
          then show ?thesis using "1.prems" False Inr unfolding unf by simp
        next
          case lt
          then have "m \<in> set (binary_search_reads S t (mid + 1) right)"
            using "1.prems" False Inr unfolding unf by simp
          from "1.IH"(1)[OF True mid_def Inr lt this] show ?thesis using mb by simp
        next
          case gt
          then have "m \<in> set (binary_search_reads S t left (mid - 1))"
            using "1.prems" False Inr unfolding unf by simp
          from "1.IH"(2)[OF True mid_def Inr gt this] show ?thesis using mb by simp
        qed
      qed
    qed
  qed
qed

lemma binary_search_sorted:
  "sorted S \<Longrightarrow> 0 \<le> left \<Longrightarrow> right < int (length S) \<Longrightarrow>
    ((\<exists>i. left \<le> i \<and> i \<le> right \<and> S ! nat i = t) \<longrightarrow>
       (\<exists>i. binary_search S t left right = Inr i \<and> left \<le> i \<and> i \<le> right \<and> S ! nat i = t)) \<and>
    ((\<forall>i. left \<le> i \<and> i \<le> right \<longrightarrow> S ! nat i \<noteq> t) \<longrightarrow>
       binary_search S t left right = Inr (- 1))"
proof (induction S t left right rule: binary_search.induct)
  case (1 S t left right)
  note srt = "1.prems"(1)
  show ?case
  proof (cases "left \<le> right")
    case False
    then have "binary_search S t left right = Inr (- 1)" by (subst binary_search.simps) simp
    then show ?thesis using False by auto
  next
    case True
    define mid where "mid = (left + right) div 2"
    have mb: "left \<le> mid" "mid \<le> right" unfolding mid_def using midpoint_bounds[OF True] by simp_all
    have mr: "0 \<le> mid" "mid < int (length S)" using mb "1.prems" by linarith+
    have idx: "py_index S mid = Inr (S ! nat mid)" using mr by (rule py_index_in_range)
    have mono: "\<And>a b. 0 \<le> a \<Longrightarrow> a \<le> b \<Longrightarrow> b < int (length S) \<Longrightarrow> S ! nat a \<le> S ! nat b"
      using srt by (intro sorted_nth_mono) auto
    consider (eq) "S ! nat mid = t" | (lt) "S ! nat mid \<noteq> t" "S ! nat mid < t"
      | (gt) "S ! nat mid \<noteq> t" "\<not> S ! nat mid < t" by blast
    then show ?thesis
    proof cases
      case eq
      have "binary_search S t left right = Inr mid"
        using True idx eq by (subst binary_search.simps) (simp add: Let_def mid_def[symmetric])
      then show ?thesis using eq mb by auto
    next
      case lt
      have step: "binary_search S t left right = binary_search S t (mid + 1) right"
        using True idx lt by (subst binary_search.simps) (simp add: Let_def mid_def[symmetric])
      have ih: "((\<exists>i. mid + 1 \<le> i \<and> i \<le> right \<and> S ! nat i = t) \<longrightarrow>
         (\<exists>i. binary_search S t (mid + 1) right = Inr i \<and> mid + 1 \<le> i \<and> i \<le> right \<and> S ! nat i = t)) \<and>
        ((\<forall>i. mid + 1 \<le> i \<and> i \<le> right \<longrightarrow> S ! nat i \<noteq> t) \<longrightarrow>
           binary_search S t (mid + 1) right = Inr (- 1))"
        using "1.IH"(1)[OF True mid_def idx lt srt] mr "1.prems" by simp
      have excl: "\<And>i. left \<le> i \<Longrightarrow> i \<le> mid \<Longrightarrow> S ! nat i \<noteq> t"
      proof -
        fix i assume "left \<le> i" "i \<le> mid"
        then have "S ! nat i \<le> S ! nat mid" using mono[of i mid] "1.prems" mr by simp
        then show "S ! nat i \<noteq> t" using lt(2) by auto
      qed
      show ?thesis
      proof (intro conjI impI)
        assume "\<exists>i. left \<le> i \<and> i \<le> right \<and> S ! nat i = t"
        then obtain i where i: "left \<le> i" "i \<le> right" "S ! nat i = t" by blast
        then have "mid + 1 \<le> i" using excl[of i] by force
        then obtain r where "binary_search S t (mid + 1) right = Inr r" "mid + 1 \<le> r" "r \<le> right" "S ! nat r = t"
          using ih i by blast
        then show "\<exists>i. binary_search S t left right = Inr i \<and> left \<le> i \<and> i \<le> right \<and> S ! nat i = t"
          unfolding step using mb by (intro exI[of _ r]) simp
      next
        assume "\<forall>i. left \<le> i \<and> i \<le> right \<longrightarrow> S ! nat i \<noteq> t"
        then have "\<forall>i. mid + 1 \<le> i \<and> i \<le> right \<longrightarrow> S ! nat i \<noteq> t" using mb by auto
        then show "binary_search S t left right = Inr (- 1)" unfolding step using ih by blast
      qed
    next
      case gt
      have step: "binary_search S t left right = binary_search S t left (mid - 1)"
        using True idx gt by (subst binary_search.simps) (simp add: Let_def mid_def[symmetric])
      have ih: "((\<exists>i. left \<le> i \<and> i \<le> mid - 1 \<and> S ! nat i = t) \<longrightarrow>
         (\<exists>i. binary_search S t left (mid - 1) = Inr i \<and> left \<le> i \<and> i \<le> mid - 1 \<and> S ! nat i = t)) \<and>
        ((\<forall>i. left \<le> i \<and> i \<le> mid - 1 \<longrightarrow> S ! nat i \<noteq> t) \<longrightarrow>
           binary_search S t left (mid - 1) = Inr (- 1))"
        using "1.IH"(2)[OF True mid_def idx gt srt] mr "1.prems" by simp
      have excl: "\<And>i. mid \<le> i \<Longrightarrow> i \<le> right \<Longrightarrow> S ! nat i \<noteq> t"
      proof -
        fix i assume "mid \<le> i" "i \<le> right"
        then have "S ! nat mid \<le> S ! nat i" using mono[of mid i] "1.prems" mr by simp
        then show "S ! nat i \<noteq> t" using gt by auto
      qed
      show ?thesis
      proof (intro conjI impI)
        assume "\<exists>i. left \<le> i \<and> i \<le> right \<and> S ! nat i = t"
        then obtain i where i: "left \<le> i" "i \<le> right" "S ! nat i = t" by blast
        then have "i \<le> mid - 1" using excl[of i] by force
        then obtain r where "binary_search S t left (mid - 1) = Inr r" "left \<le> r" "r \<le> mid - 1" "S ! nat r = t"
          using ih i by blast
        then show "\<exists>i. binary_search S t left right = Inr i \<and> left \<le> i \<and> i \<le> right \<and> S ! nat i = t"
          unfolding step using mb by (intro exI[of _ r]) simp
      next
        assume "\<forall>i. left \<le> i \<and> i \<le> right \<longrightarrow> S ! nat i \<noteq> t"
        then have "\<forall>i. left \<le> i \<and> i \<le> mid - 1 \<longrightarrow> S ! nat i \<noteq> t" using mb by auto
        then show "binary_search S t left right = Inr (- 1)" unfolding step using ih by blast
      qed
    qed
  qed
qed

lemma binary_search_member:
  assumes "sorted S" and "t \<in> set S"
  shows "\<exists>i < length S. binary_search S t 0 (int (length S) - 1) = Inr (int i) \<and> S ! i = t"
proof -
  from assms(2) obtain k where k: "k < length S" "S ! k = t" by (auto simp: in_set_conv_nth)
  then have "\<exists>i. (0::int) \<le> i \<and> i \<le> int (length S) - 1 \<and> S ! nat i = t"
    by (intro exI[of _ "int k"]) simp
  with binary_search_sorted[OF assms(1), of 0 "int (length S) - 1" t]
  obtain i where i: "binary_search S t 0 (int (length S) - 1) = Inr i" "0 \<le> i"
    "i \<le> int (length S) - 1" "S ! nat i = t" by auto
  then show ?thesis by (intro exI[of _ "nat i"]) auto
qed

lemma binary_search_absent:
  assumes "sorted S" and "t \<notin> set S"
  shows "binary_search S t 0 (int (length S) - 1) = Inr (- 1)"
proof -
  have "\<forall>i. (0::int) \<le> i \<and> i \<le> int (length S) - 1 \<longrightarrow> S ! nat i \<noteq> t"
  proof (intro allI impI)
    fix i :: int assume "0 \<le> i \<and> i \<le> int (length S) - 1"
    then have "nat i < length S" by linarith
    then have "S ! nat i \<in> set S" by (rule nth_mem)
    then show "S ! nat i \<noteq> t" using assms(2) by auto
  qed
  with binary_search_sorted[OF assms(1), of 0 "int (length S) - 1" t] show ?thesis by auto
qed

lemma binary_search_reads_length:
  "length (binary_search_reads S t left right) \<le> nat (right - left + 1)"
proof (induction S t left right rule: binary_search_reads.induct)
  case (1 S t left right)
  show ?case
  proof (cases "left \<le> right")
    case False
    then show ?thesis by (subst binary_search_reads.simps) simp
  next
    case True
    define mid where "mid = (left + right) div 2"
    have mb: "left \<le> mid" "mid \<le> right" unfolding mid_def using midpoint_bounds[OF True] by simp_all
    have unf: "binary_search_reads S t left right =
        mid # (case py_index S mid of Inl e \<Rightarrow> []
               | Inr v \<Rightarrow> if v = t then []
                   else if v < t then binary_search_reads S t (mid + 1) right
                   else binary_search_reads S t left (mid - 1))"
      using True by (subst binary_search_reads.simps) (simp add: Let_def mid_def[symmetric])
    show ?thesis
    proof (cases "py_index S mid")
      case (Inl e)
      then show ?thesis using True unfolding unf by simp
    next
      case (Inr v)
      consider (eq) "v = t" | (lt) "v \<noteq> t" "v < t" | (gt) "v \<noteq> t" "\<not> v < t" by blast
      then show ?thesis
      proof cases
        case eq
        then show ?thesis using True Inr unfolding unf by simp
      next
        case lt
        from "1.IH"(1)[OF True mid_def Inr lt] show ?thesis
          using mb lt Inr unfolding unf by simp
      next
        case gt
        from "1.IH"(2)[OF True mid_def Inr gt] show ?thesis
          using mb gt Inr unfolding unf by simp
      qed
    qed
  qed
qed

text \<open>
  C10: for every list of strings \<open>S\<close> and every target, the search called with
  \<open>left = 0\<close> and \<open>right = |S| - 1\<close> returns (the definition is total by the measure
  \<open>right - left + 1\<close>, which every recursive call decreases, and no read raises
  IndexError); it reads at most \<open>|S|\<close> elements, each at an index between \<open>left\<close>
  and \<open>right\<close>; on the empty list it returns \<open>-1\<close> and reads nothing.
\<close>

theorem binary_search_terminates:
  fixes S :: "string list"
  shows "(\<exists>r. binary_search S t 0 (int (length S) - 1) = Inr r) \<and>
         list_all (\<lambda>m. 0 \<le> m \<and> m \<le> int (length S) - 1)
           (binary_search_reads S t 0 (int (length S) - 1)) \<and>
         length (binary_search_reads S t 0 (int (length S) - 1)) \<le> length S \<and>
         binary_search ([] :: string list) t 0 (int (length ([] :: string list)) - 1) = Inr (- 1) \<and>
         binary_search_reads ([] :: string list) t 0 (int (length ([] :: string list)) - 1) = []"
proof (intro conjI)
  show "\<exists>r. binary_search S t 0 (int (length S) - 1) = Inr r"
    using binary_search_returns[of 0 "int (length S) - 1" S t] by auto
  show "list_all (\<lambda>m. 0 \<le> m \<and> m \<le> int (length S) - 1)
          (binary_search_reads S t 0 (int (length S) - 1))"
    unfolding list_all_iff using binary_search_reads_bounds by blast
  show "length (binary_search_reads S t 0 (int (length S) - 1)) \<le> length S"
    using binary_search_reads_length[of S t 0 "int (length S) - 1"] by simp
  show "binary_search ([] :: string list) t 0 (int (length ([] :: string list)) - 1) = Inr (- 1)"
    by (subst binary_search.simps) simp
  show "binary_search_reads ([] :: string list) t 0 (int (length ([] :: string list)) - 1) = []"
    by (subst binary_search_reads.simps) simp
qed

text \<open>
  C4: for every list \<open>S\<close> of unique strings sorted ascending and every target \<open>t\<close>,
  the search called with \<open>left = 0\<close> and \<open>right = |S| - 1\<close> returns the index \<open>i\<close>
  with \<open>S[i] = t\<close> when \<open>t\<close> is in \<open>S\<close> (at any position, the first and the last
  included), and \<open>-1\<close> when \<open>t\<close> is not in \<open>S\<close>.
\<close>

theorem binary_search_correct:
  fixes S :: "string list"
  assumes "sorted S" and "distinct S"
  shows "(\<forall>i < length S. S ! i = t \<longrightarrow>
            binary_search S t 0 (int (length S) - 1) = Inr (int i)) \<and>
         (t \<notin> set S \<longrightarrow> binary_search S t 0 (int (length S) - 1) = Inr (- 1))"
proof (intro conjI allI impI)
  fix i assume i: "i < length S" "S ! i = t"
  then have "t \<in> set S" by auto
  from binary_search_member[OF assms(1) this] obtain k where
    k: "k < length S" "binary_search S t 0 (int (length S) - 1) = Inr (int k)" "S ! k = t"
    by blast
  have "k = i" using nth_eq_iff_index_eq[OF assms(2) k(1) i(1)] i(2) k(3) by simp
  then show "binary_search S t 0 (int (length S) - 1) = Inr (int i)" using k(2) by simp
next
  assume "t \<notin> set S"
  then show "binary_search S t 0 (int (length S) - 1) = Inr (- 1)"
    by (rule binary_search_absent[OF assms(1)])
qed

theorem binary_search_correct_witness:
  "sorted [''cupertino'', ''san francisco'', ''san jose''] \<and>
   distinct [''cupertino'', ''san francisco'', ''san jose''] \<and>
   binary_search [''cupertino'', ''san francisco'', ''san jose''] ''cupertino'' 0 2 = Inr 0 \<and>
   binary_search [''cupertino'', ''san francisco'', ''san jose''] ''san jose'' 0 2 = Inr 2 \<and>
   binary_search [''cupertino'', ''san francisco'', ''san jose''] ''oakland'' 0 2 = Inr (- 1)"
proof -
  let ?S = "[''cupertino'', ''san francisco'', ''san jose'']"
  have s: "sorted ?S" by code_simp
  have d: "distinct ?S" by code_simp
  have n: "''oakland'' \<notin> set ?S" by code_simp
  have "0 < length ?S" and "?S ! 0 = ''cupertino''" by simp_all
  then have "binary_search ?S ''cupertino'' 0 (int (length ?S) - 1) = Inr (int 0)"
    using binary_search_correct[OF s d, of "''cupertino''"] by blast
  moreover have "2 < length ?S" and "?S ! 2 = ''san jose''" by simp_all
  then have "binary_search ?S ''san jose'' 0 (int (length ?S) - 1) = Inr (int 2)"
    using binary_search_correct[OF s d, of "''san jose''"] by blast
  moreover have "binary_search ?S ''oakland'' 0 (int (length ?S) - 1) = Inr (- 1)"
    using binary_search_correct[OF s d, of "''oakland''"] n by blast
  ultimately show ?thesis using s d by simp
qed

section \<open>Strings: white space, letters and case\<close>

lemma is_alpha_not_space: "is_alpha c \<Longrightarrow> \<not> is_space c"
  unfolding is_alpha_def is_space_def Let_def by linarith

lemma is_space_lower_char: "is_space (lower_char c) = is_space c"
proof -
  have "(of_char c :: nat) < 256" by simp
  then show ?thesis
    unfolding lower_char_def is_space_def Let_def
    by (auto simp: of_char_of)
qed

lemma dropWhile_keeps:
  "c \<in> set s \<Longrightarrow> \<not> P c \<Longrightarrow> c \<in> set (dropWhile P s)"
  by (induction s) auto

lemma str_strip_keeps: "c \<in> set s \<Longrightarrow> \<not> is_space c \<Longrightarrow> c \<in> set (str_strip s)"
  unfolding str_strip_def by (simp add: dropWhile_keeps)

lemma str_strip_pad:
  assumes p: "list_all is_space p" and q: "list_all is_space q"
  shows "str_strip (p @ u @ q) = str_strip u"
proof -
  have a: "dropWhile is_space (p @ u @ q) = dropWhile is_space (u @ q)"
    using p by (simp add: list_all_iff dropWhile_append2)
  show ?thesis
  proof (cases "list_all is_space u")
    case True
    then have b: "dropWhile is_space (u @ q) = []" "dropWhile is_space u = []"
      using q by (simp_all add: dropWhile_eq_Nil_conv list_all_iff)
    show ?thesis unfolding str_strip_def a b by simp
  next
    case False
    then obtain x where "x \<in> set u" "\<not> is_space x" by (auto simp: list_all_iff)
    then have "dropWhile is_space (u @ q) = dropWhile is_space u @ q"
      by (rule dropWhile_append1)
    then have b: "rev (dropWhile is_space (u @ q)) = rev q @ rev (dropWhile is_space u)"
      by simp
    have c: "dropWhile is_space (rev q @ rev (dropWhile is_space u))
        = dropWhile is_space (rev (dropWhile is_space u))"
      using q by (intro dropWhile_append2) (simp add: list_all_iff)
    show ?thesis unfolding str_strip_def a b c by (rule refl)
  qed
qed

lemma str_lower_strip: "str_lower (str_strip s) = str_strip (str_lower s)"
proof -
  have comp: "is_space \<circ> lower_char = is_space" by (rule ext) (simp add: is_space_lower_char)
  have A: "dropWhile is_space (map lower_char xs) = map lower_char (dropWhile is_space xs)" for xs
    by (simp add: dropWhile_map comp)
  show ?thesis
    unfolding str_lower_def str_strip_def by (simp add: A rev_map)
qed

lemma same_spelling_normal:
  "same_spelling a b \<Longrightarrow> str_lower (str_strip a) = str_lower (str_strip b)"
proof (induction rule: same_spelling.induct)
  case (same_spellingI p q p' q' u u')
  then show ?case by (simp add: str_strip_pad str_lower_strip)
qed

lemma valid_key_nonempty:
  assumes "str_isalpha (remove_spaces s)"
  shows "str_lower (str_strip s) \<noteq> []"
proof -
  from assms obtain c where c: "c \<in> set (remove_spaces s)"
    unfolding str_isalpha_def by (cases "remove_spaces s") auto
  with assms have "is_alpha c" unfolding str_isalpha_def by (auto simp: list_all_iff)
  then have "\<not> is_space c" by (rule is_alpha_not_space)
  moreover have "c \<in> set s" using c unfolding remove_spaces_def by simp
  ultimately have "c \<in> set (str_strip s)" by (simp add: str_strip_keeps)
  then show ?thesis unfolding str_lower_def by auto
qed

section \<open>The resource catalog\<close>

lemma dict_entry:
  "\<exists>v. map_of (if dict_contains d k then d else AList.update k e d) k = Some v"
  by (auto simp: dict_contains_def update_conv')

lemma add_resource_accepts:
  assumes "str_isalpha (remove_spaces location)" and "str_isalpha (remove_spaces category)"
    and "str_strip name \<noteq> []"
  shows "\<exists>db1 cats cats1 names.
    db1 = (if dict_contains db (str_lower (str_strip location)) then db
           else AList.update (str_lower (str_strip location)) [] db) \<and>
    map_of db1 (str_lower (str_strip location)) = Some cats \<and>
    cats1 = (if dict_contains cats (str_lower (str_strip category)) then cats
             else AList.update (str_lower (str_strip category)) [] cats) \<and>
    map_of cats1 (str_lower (str_strip category)) = Some names \<and>
    add_resource db location category name verbose =
      Inr (AList.update (str_lower (str_strip location))
             (AList.update (str_lower (str_strip category)) (names @ [str_strip name]) cats1) db1,
           if verbose
           then [ResourceAdded (str_strip name) (str_lower (str_strip category))
                   (str_lower (str_strip location))]
           else [])"
proof -
  define loc where "loc = str_lower (str_strip location)"
  define cat where "cat = str_lower (str_strip category)"
  define db1 where "db1 = (if dict_contains db loc then db else AList.update loc [] db)"
  obtain cats where cats: "map_of db1 loc = Some cats"
    unfolding db1_def using dict_entry[of db loc "[]"] by blast
  define cats1 where "cats1 = (if dict_contains cats cat then cats else AList.update cat [] cats)"
  obtain names where names: "map_of cats1 cat = Some names"
    unfolding cats1_def using dict_entry[of cats cat "[]"] by blast
  have g1: "dict_get db1 loc = Inr cats" using cats by (simp add: dict_get_def)
  have g2: "dict_get cats1 cat = Inr names" using names by (simp add: dict_get_def)
  have e1: "(if \<not> dict_contains db loc then AList.update loc [] db else db) = db1"
    by (simp add: db1_def)
  have e2: "(if \<not> dict_contains cats cat then AList.update cat [] cats else cats) = cats1"
    by (simp add: cats1_def)
  have "add_resource db location category name verbose =
      Inr (AList.update loc (AList.update cat (names @ [str_strip name]) cats1) db1,
           if verbose then [ResourceAdded (str_strip name) cat loc] else [])"
    unfolding add_resource_def Let_def loc_def[symmetric] cat_def[symmetric] e1 g1 sum.case e2 g2
    using assms by simp
  then show ?thesis
    using cats names unfolding loc_def cat_def db1_def cats1_def by blast
qed

lemma add_resource_rejects:
  assumes "\<not> str_isalpha (remove_spaces location) \<or> \<not> str_isalpha (remove_spaces category)
    \<or> str_strip name = []"
  shows "\<exists>msg. add_resource db location category name verbose = Inr (db, [msg]) \<and>
    msg \<in> {InvalidLocation location, InvalidCategory category, InvalidName name}"
  using assms unfolding add_resource_def by auto

lemma has_non_letter:
  assumes "c \<in> set s" and "c \<noteq> CHR '' ''" and "\<not> is_alpha c"
  shows "\<not> str_isalpha (remove_spaces s)"
  using assms unfolding str_isalpha_def remove_spaces_def by (auto simp: list_all_iff)

lemma found_in_sorted_keys:
  assumes "map_of d k = Some v"
  shows "\<exists>i. binary_search (selection_sort (dict_keys d)) k 0
                (int (length (selection_sort (dict_keys d))) - 1) = Inr i \<and> i \<noteq> - 1 \<and>
             py_index (selection_sort (dict_keys d)) i = Inr k"
proof -
  let ?S = "selection_sort (dict_keys d)"
  have "k \<in> set (dict_keys d)"
    using assms unfolding dict_keys_def by (metis map_of_SomeD image_eqI fst_conv set_map)
  moreover have "set ?S = set (dict_keys d)" using mset_selection_sort by (metis set_mset_mset)
  ultimately have "k \<in> set ?S" by simp
  from binary_search_member[OF sorted_selection_sort this]
  obtain i where i: "i < length ?S" "binary_search ?S k 0 (int (length ?S) - 1) = Inr (int i)"
    "?S ! i = k" by blast
  have "py_index ?S (int i) = Inr k" using i(1,3) by (simp add: py_index_def)
  then show ?thesis using i(2) by (intro exI[of _ "int i"]) simp
qed

lemma search_finds:
  assumes db: "map_of db loc = Some cats" and cats: "map_of cats cat = Some names"
    and l: "str_lower (str_strip location) = loc" and c: "str_lower (str_strip category) = cat"
  shows "search_resources_by_category db location category =
           Inr [ResourcesUnder loc cat, ResourceNames names]"
proof -
  from found_in_sorted_keys[OF db] obtain i where
    i: "binary_search (selection_sort (dict_keys db)) loc 0
          (int (length (selection_sort (dict_keys db))) - 1) = Inr i" "i \<noteq> - 1"
       "py_index (selection_sort (dict_keys db)) i = Inr loc" by blast
  from found_in_sorted_keys[OF cats] obtain j where
    j: "binary_search (selection_sort (dict_keys cats)) cat 0
          (int (length (selection_sort (dict_keys cats))) - 1) = Inr j" "j \<noteq> - 1"
       "py_index (selection_sort (dict_keys cats)) j = Inr cat" by blast
  have g1: "dict_get db loc = Inr cats" using db by (simp add: dict_get_def)
  have g2: "dict_get cats cat = Inr names" using cats by (simp add: dict_get_def)
  show ?thesis
    unfolding search_resources_by_category_def Let_def l c
    by (simp add: i j g1 g2)
qed

lemma list_all_update:
  "P (k, v) \<Longrightarrow> list_all P al \<Longrightarrow> list_all P (AList.update k v al)"
  by (induction al) auto

lemma keys_nonempty_add_resource:
  assumes inv: "keys_nonempty db"
    and step: "add_resource db location category name verbose = Inr (db', out)"
  shows "keys_nonempty db'"
proof (cases "str_isalpha (remove_spaces location) \<and> str_isalpha (remove_spaces category)
    \<and> str_strip name \<noteq> []")
  case False
  then have "\<exists>msg. add_resource db location category name verbose = Inr (db, [msg])"
    using add_resource_rejects[of location category name db verbose] by blast
  then have "db' = db" using step by auto
  then show ?thesis using inv by simp
next
  case True
  define loc where "loc = str_lower (str_strip location)"
  define cat where "cat = str_lower (str_strip category)"
  let ?ok = "\<lambda>(category, names :: string list). category \<noteq> ([] :: string)"
  let ?P = "\<lambda>(location, cats). location \<noteq> ([] :: string) \<and> list_all ?ok cats"
  have loc: "loc \<noteq> []" and cat: "cat \<noteq> []"
    unfolding loc_def cat_def using True by (simp_all add: valid_key_nonempty)
  from add_resource_accepts[of location category name db verbose] True
  obtain db1 cats cats1 names where
    db1: "db1 = (if dict_contains db loc then db else AList.update loc [] db)"
    and cats: "map_of db1 loc = Some cats"
    and cats1: "cats1 = (if dict_contains cats cat then cats else AList.update cat [] cats)"
    and res: "add_resource db location category name verbose =
      Inr (AList.update loc (AList.update cat (names @ [str_strip name]) cats1) db1,
           if verbose then [ResourceAdded (str_strip name) cat loc] else [])"
    unfolding loc_def cat_def by blast
  have inv1: "list_all ?P db1"
    unfolding db1 using inv loc by (auto simp: keys_nonempty_def intro!: list_all_update)
  have "(loc, cats) \<in> set db1" using cats by (rule map_of_SomeD)
  then have "list_all ?ok cats" using inv1 by (auto simp: list_all_iff)
  then have "list_all ?ok cats1"
    unfolding cats1 using cat by (auto intro!: list_all_update)
  then have "list_all ?ok (AList.update cat (names @ [str_strip name]) cats1)"
    using cat by (auto intro!: list_all_update)
  then have "list_all ?P (AList.update loc (AList.update cat (names @ [str_strip name]) cats1) db1)"
    using inv1 loc by (auto intro!: list_all_update)
  moreover have "db' = AList.update loc (AList.update cat (names @ [str_strip name]) cats1) db1"
    using res step by simp
  ultimately show ?thesis unfolding keys_nonempty_def by simp
qed

lemma reachable_db_keys_nonempty: "reachable_db db \<Longrightarrow> keys_nonempty db"
proof (induction rule: reachable_db.induct)
  case reachable_empty
  show ?case by (simp add: keys_nonempty_def)
next
  case (reachable_add db location category name verbose db' out)
  then show ?case using keys_nonempty_add_resource by blast
qed

text \<open>
  C6: when the location or the category has, apart from spaces, a character that is not a
  letter, or the name is empty after trimming, \<open>add_resource\<close> prints the message of the
  check that fails and returns with the catalog as it was; so does
  \<^verbatim>\<open>add_resource("Inv4lid", "Health", "X")\<close> on every catalog.
\<close>

theorem add_resource_rejects_invalid:
  assumes "(\<exists>c \<in> set location. c \<noteq> CHR '' '' \<and> \<not> is_alpha c) \<or>
           (\<exists>c \<in> set category. c \<noteq> CHR '' '' \<and> \<not> is_alpha c) \<or>
           str_strip name = []"
  shows "(\<exists>msg. add_resource db location category name verbose = Inr (db, [msg]) \<and>
            msg \<in> {InvalidLocation location, InvalidCategory category, InvalidName name}) \<and>
         add_resource db ''Inv4lid'' ''Health'' ''X'' verbose
           = Inr (db, [InvalidLocation ''Inv4lid''])"
proof
  have "\<not> str_isalpha (remove_spaces location) \<or> \<not> str_isalpha (remove_spaces category)
      \<or> str_strip name = []"
    using assms has_non_letter by blast
  then show "\<exists>msg. add_resource db location category name verbose = Inr (db, [msg]) \<and>
      msg \<in> {InvalidLocation location, InvalidCategory category, InvalidName name}"
    by (rule add_resource_rejects)
next
  have "\<not> str_isalpha (remove_spaces ''Inv4lid'')" by code_simp
  then show "add_resource db ''Inv4lid'' ''Health'' ''X'' verbose
      = Inr (db, [InvalidLocation ''Inv4lid''])"
    by (simp add: add_resource_def)
qed

theorem add_resource_rejects_invalid_witness:
  "CHR ''4'' \<in> set ''Inv4lid'' \<and> CHR ''4'' \<noteq> CHR '' '' \<and> \<not> is_alpha CHR ''4'' \<and>
   add_resource [(''san jose'', [(''health'', [''Clinic X''])])] ''Inv4lid'' ''Health'' ''X'' False
     = Inr ([(''san jose'', [(''health'', [''Clinic X''])])], [InvalidLocation ''Inv4lid''])"
proof -
  have a: "CHR ''4'' \<in> set ''Inv4lid''" "CHR ''4'' \<noteq> CHR '' ''" "\<not> is_alpha CHR ''4''"
    by code_simp+
  have ex: "\<exists>c \<in> set ''Inv4lid''. c \<noteq> CHR '' '' \<and> \<not> is_alpha c"
    by (rule bexI[where x = "CHR ''4''" and P = "\<lambda>c. c \<noteq> CHR '' '' \<and> \<not> is_alpha c", OF conjI[OF a(2) a(3)] a(1)])
  have r: "add_resource [(''san jose'', [(''health'', [''Clinic X''])])] ''Inv4lid'' ''Health'' ''X'' False
     = Inr ([(''san jose'', [(''health'', [''Clinic X''])])], [InvalidLocation ''Inv4lid''])"
    by (rule conjunct2[OF add_resource_rejects_invalid[OF disjI1[OF ex]]])
  show ?thesis by (intro conjI a r)
qed

text \<open>
  C9: every catalog reachable from the empty one by \<open>add_resource\<close> has only non-empty
  location and category keys; a location that is empty or only spaces is rejected, and so
  is such a category, with the catalog unchanged.
\<close>

theorem catalog_keys_nonempty:
  "(reachable_db db \<longrightarrow> keys_nonempty db) \<and>
   (list_all (\<lambda>c. c = CHR '' '') location \<longrightarrow>
      add_resource db0 location category name verbose = Inr (db0, [InvalidLocation location])) \<and>
   (str_isalpha (remove_spaces location) \<and> list_all (\<lambda>c. c = CHR '' '') category \<longrightarrow>
      add_resource db0 location category name verbose = Inr (db0, [InvalidCategory category]))"
proof (intro conjI impI)
  assume "reachable_db db"
  then show "keys_nonempty db" by (rule reachable_db_keys_nonempty)
next
  assume "list_all (\<lambda>c. c = CHR '' '') location"
  then have "remove_spaces location = []"
    unfolding remove_spaces_def by (auto simp: list_all_iff filter_empty_conv)
  then show "add_resource db0 location category name verbose = Inr (db0, [InvalidLocation location])"
    by (simp add: add_resource_def str_isalpha_def)
next
  assume a: "str_isalpha (remove_spaces location) \<and> list_all (\<lambda>c. c = CHR '' '') category"
  then have "remove_spaces category = []"
    unfolding remove_spaces_def by (auto simp: list_all_iff filter_empty_conv)
  then show "add_resource db0 location category name verbose = Inr (db0, [InvalidCategory category])"
    using a by (simp add: add_resource_def str_isalpha_def)
qed

theorem catalog_keys_nonempty_witness:
  "reachable_db [(''san jose'', [(''health'', [''Clinic X''])])] \<and>
   keys_nonempty [(''san jose'', [(''health'', [''Clinic X''])])] \<and>
   list_all (\<lambda>c. c = CHR '' '') ''   '' \<and>
   add_resource [] ''   '' ''Health'' ''X'' False = Inr ([], [InvalidLocation ''   ''])"
proof -
  have step: "add_resource [] ''San Jose'' ''Health'' ''Clinic X'' False
      = Inr ([(''san jose'', [(''health'', [''Clinic X''])])], [])" by code_simp
  have r: "reachable_db [(''san jose'', [(''health'', [''Clinic X''])])]"
    by (rule reachable_add[OF reachable_empty step])
  have b: "list_all (\<lambda>c. c = CHR '' '') ''   ''" by simp
  note t = catalog_keys_nonempty[of "[(''san jose'', [(''health'', [''Clinic X''])])]" "''   ''"
      "[]" "''Health''" "''X''" False]
  have k: "keys_nonempty [(''san jose'', [(''health'', [''Clinic X''])])]"
    by (rule mp[OF conjunct1[OF t] r])
  have j: "add_resource [] ''   '' ''Health'' ''X'' False = Inr ([], [InvalidLocation ''   ''])"
    by (rule mp[OF conjunct1[OF conjunct2[OF t]] b])
  show ?thesis by (intro conjI r k b j)
qed

text \<open>
  C3, as the code has it: for a valid location and category and a name that is not empty
  after trimming, \<open>add_resource\<close> followed by \<open>search_resources_by_category\<close>, with a
  location and a category that differ from the added ones only by case or surrounding white
  space, prints the names of the bucket, and the trimmed name (\<^verbatim>\<open>name.strip()\<close>) is
  among them.
\<close>

theorem add_then_search:
  assumes "str_isalpha (remove_spaces location)" and "str_isalpha (remove_spaces category)"
    and "str_strip name \<noteq> []"
    and "same_spelling location location'" and "same_spelling category category'"
  shows "\<exists>db' out names.
    add_resource db location category name verbose = Inr (db', out) \<and>
    search_resources_by_category db' location' category' =
      Inr [ResourcesUnder (str_lower (str_strip location)) (str_lower (str_strip category)),
           ResourceNames names] \<and>
    str_strip name \<in> set names"
proof -
  define loc where "loc = str_lower (str_strip location)"
  define cat where "cat = str_lower (str_strip category)"
  from add_resource_accepts[OF assms(1-3), of db verbose]
  obtain db1 cats1 names where
    res: "add_resource db location category name verbose =
      Inr (AList.update loc (AList.update cat (names @ [str_strip name]) cats1) db1,
           if verbose then [ResourceAdded (str_strip name) cat loc] else [])"
    unfolding loc_def cat_def by blast
  let ?cats = "AList.update cat (names @ [str_strip name]) cats1"
  let ?db = "AList.update loc ?cats db1"
  have m1: "map_of ?db loc = Some ?cats" by (simp add: update_conv')
  have m2: "map_of ?cats cat = Some (names @ [str_strip name])" by (simp add: update_conv')
  have l: "str_lower (str_strip location') = loc"
    unfolding loc_def using same_spelling_normal[OF assms(4)] by simp
  have c: "str_lower (str_strip category') = cat"
    unfolding cat_def using same_spelling_normal[OF assms(5)] by simp
  have "search_resources_by_category ?db location' category' =
      Inr [ResourcesUnder loc cat, ResourceNames (names @ [str_strip name])]"
    by (rule search_finds[OF m1 m2 l c])
  then show ?thesis using res unfolding loc_def cat_def by auto
qed

theorem add_then_search_witness:
  "str_isalpha (remove_spaces ''San Jose'') \<and> str_isalpha (remove_spaces ''Health'') \<and>
   str_strip '' Clinic X '' \<noteq> [] \<and>
   same_spelling ''San Jose'' ''  SAN jose '' \<and> same_spelling ''Health'' ''HEALTH'' \<and>
   (\<exists>db' out names.
      add_resource [] ''San Jose'' ''Health'' '' Clinic X '' False = Inr (db', out) \<and>
      search_resources_by_category db' ''  SAN jose '' ''HEALTH'' =
        Inr [ResourcesUnder ''san jose'' ''health'', ResourceNames names] \<and>
      ''Clinic X'' \<in> set names)"
proof -
  have h1: "str_isalpha (remove_spaces ''San Jose'')" by code_simp
  have h2: "str_isalpha (remove_spaces ''Health'')" by code_simp
  have h3: "str_strip '' Clinic X '' \<noteq> []" by code_simp
  have sp: "list_all is_space []" "list_all is_space ''  ''" "list_all is_space '' ''"
    by code_simp+
  have e4: "str_lower ''San Jose'' = str_lower ''SAN jose''" by code_simp
  have e5: "str_lower ''Health'' = str_lower ''HEALTH''" by code_simp
  have h4: "same_spelling ''San Jose'' ''  SAN jose ''"
    using same_spellingI[OF sp(1) sp(1) sp(2) sp(3) e4] by simp
  have h5: "same_spelling ''Health'' ''HEALTH''"
    using same_spellingI[OF sp(1) sp(1) sp(1) sp(1) e5] by simp
  have n: "str_lower (str_strip ''San Jose'') = ''san jose''"
    "str_lower (str_strip ''Health'') = ''health''" "str_strip '' Clinic X '' = ''Clinic X''"
    by code_simp+
  have r: "\<exists>db' out names.
      add_resource [] ''San Jose'' ''Health'' '' Clinic X '' False = Inr (db', out) \<and>
      search_resources_by_category db' ''  SAN jose '' ''HEALTH'' =
        Inr [ResourcesUnder ''san jose'' ''health'', ResourceNames names] \<and>
      ''Clinic X'' \<in> set names"
    using add_then_search[OF h1 h2 h3 h4 h5, of "[]" False] unfolding n .
  show ?thesis by (intro conjI h1 h2 h3 h4 h5 r)
qed

text \<open>
  The name is stored trimmed: a name given with surrounding white space is not itself in
  the list that the search prints.
\<close>

theorem add_then_search_untrimmed_name:
  "add_resource [] ''San Jose'' ''Health'' '' Clinic X '' False
     = Inr ([(''san jose'', [(''health'', [''Clinic X''])])], []) \<and>
   search_resources_by_category [(''san jose'', [(''health'', [''Clinic X''])])]
       ''san jose '' ''HEALTH''
     = Inr [ResourcesUnder ''san jose'' ''health'', ResourceNames [''Clinic X'']] \<and>
   '' Clinic X '' \<notin> set [''Clinic X'']"
  by code_simp

section \<open>The mentor registry\<close>

lemma find_mentor_loop_no_match:
  "list_all (\<lambda>x. \<not> mentor_matches imm ex x) mentors \<Longrightarrow> find_mentor_loop mentors imm ex = None"
  by (induction mentors) (auto simp: mentor_matches_def)

lemma find_mentor_loop_first_match:
  "list_all (\<lambda>x. \<not> mentor_matches imm ex x) pre \<Longrightarrow> mentor_matches imm ex m \<Longrightarrow>
   find_mentor_loop (pre @ m # post) imm ex =
     Some (pre @ m\<lparr>vol_availability := False\<rparr> # post, m\<lparr>vol_availability := False\<rparr>)"
  by (induction pre) (auto simp: mentor_matches_def)

lemma find_mentor_loop_Some:
  "find_mentor_loop mentors imm ex = Some (mentors', r) \<Longrightarrow>
   \<exists>pre m post. mentors = pre @ m # post \<and> list_all (\<lambda>x. \<not> mentor_matches imm ex x) pre \<and>
     mentor_matches imm ex m \<and> r = m\<lparr>vol_availability := False\<rparr> \<and> mentors' = pre @ r # post"
proof (induction mentors arbitrary: mentors')
  case Nil
  then show ?case by simp
next
  case (Cons a mentors)
  show ?case
  proof (cases "mentor_matches imm ex a")
    case True
    then have eq: "find_mentor_loop (a # mentors) imm ex =
        Some (a\<lparr>vol_availability := False\<rparr> # mentors, a\<lparr>vol_availability := False\<rparr>)"
      by (auto simp: mentor_matches_def)
    have "Some (a\<lparr>vol_availability := False\<rparr> # mentors, a\<lparr>vol_availability := False\<rparr>)
        = Some (mentors', r)"
      using Cons.prems unfolding eq .
    then have "r = a\<lparr>vol_availability := False\<rparr>" "mentors' = r # mentors"
      by auto
    with True show ?thesis by (intro exI[of _ "[]"] exI[of _ a] exI[of _ mentors]) simp
  next
    case False
    then have eq: "find_mentor_loop (a # mentors) imm ex =
        map_option (\<lambda>(ms, m). (a # ms, m)) (find_mentor_loop mentors imm ex)"
      by (auto simp: mentor_matches_def)
    have "map_option (\<lambda>(ms, m). (a # ms, m)) (find_mentor_loop mentors imm ex) = Some (mentors', r)"
      using Cons.prems unfolding eq .
    then obtain ms where ms: "find_mentor_loop mentors imm ex = Some (ms, r)"
      "mentors' = a # ms" by (cases "find_mentor_loop mentors imm ex") auto
    from Cons.IH[OF ms(1)] obtain pre m post where
      "mentors = pre @ m # post" "list_all (\<lambda>x. \<not> mentor_matches imm ex x) pre"
      "mentor_matches imm ex m" "r = m\<lparr>vol_availability := False\<rparr>" "ms = pre @ r # post"
      by blast
    with False ms(2) show ?thesis
      by (intro exI[of _ "a # pre"] exI[of _ m] exI[of _ post]) simp
  qed
qed

lemma find_mentor_match:
  assumes "find_mentor_loop mentors imm ex = Some (mentors', r)"
  shows "find_mentor mentors (ImmigrantObj imm) (StrObj ex) now =
    (mentors',
     ImmigrantObj (imm\<lparr>imm_progress_log := imm_progress_log imm @
        [\<lparr>log_session_type = ''Mentor Matched'', log_details = ''Matched with '' @ vol_name r,
          log_timestamp = now\<rparr>]\<rparr>),
     [SaveData mentors', ProgressUpdated ''Mentor Matched'' (''Matched with '' @ vol_name r) now],
     Some r)"
  using assms by (simp add: find_mentor_def find_mentor_try_def update_progress_def)

lemma find_mentor_no_match:
  assumes "find_mentor_loop mentors imm ex = None"
  shows "find_mentor_try mentors (ImmigrantObj imm) (StrObj ex) now =
      Inr (mentors, ImmigrantObj imm, [NoMentorAvailable], None)"
    and "find_mentor mentors (ImmigrantObj imm) (StrObj ex) now =
      (mentors, ImmigrantObj imm, [NoMentorAvailable], None)"
  using assms by (simp_all add: find_mentor_def find_mentor_try_def)

text \<open>
  C1, as the code has it: \<open>add_mentor\<close> appends every \<^verbatim>\<open>Volunteer\<close> it is given to the
  end of the list and returns, printing the mentor when \<open>verbose\<close> is set. It does not
  compare the contact with the ones in the registry, so a record whose contact is not yet
  present is inserted, and so is one whose contact is.
\<close>

theorem add_mentor_appends:
  "add_mentor mentors (VolunteerObj mentor) verbose =
     (mentors @ [mentor], if verbose then [MentorAdded mentor] else [])"
  by (simp add: add_mentor_def add_mentor_try_def)

text \<open>
  A registry that holds a contact accepts the same contact in another case: both records
  are in the list afterwards.
\<close>

theorem add_mentor_duplicate_contact:
  "str_lower (vol_email (Volunteer ''Alice Smith'' ''alice.smith@example.com'' ''language''
       [''english'', ''spanish''] True))
     = str_lower (vol_email (Volunteer ''Alice S'' ''Alice.Smith@Example.com'' ''career''
       [''english''] True)) \<and>
   add_mentor
     [Volunteer ''Alice Smith'' ''alice.smith@example.com'' ''language'' [''english'', ''spanish''] True]
     (VolunteerObj (Volunteer ''Alice S'' ''Alice.Smith@Example.com'' ''career'' [''english''] True))
     False
     = ([Volunteer ''Alice Smith'' ''alice.smith@example.com'' ''language'' [''english'', ''spanish''] True,
         Volunteer ''Alice S'' ''Alice.Smith@Example.com'' ''career'' [''english''] True], [])"
  by code_simp

text \<open>
  C2: \<open>find_mentor\<close> visits the mentors in insertion order. When \<open>m\<close> satisfies the three
  conditions (expertise equal up to case, available, the seeker's desired language among
  the mentor's languages up to case) and no mentor before it does, the call clears the
  availability flag of \<open>m\<close> and of no other record, appends one entry
  \<^verbatim>\<open>Mentor Matched\<close> whose details hold the name of \<open>m\<close> to the seeker's log, and returns
  \<open>m\<close>, as the registry now has it.
\<close>

theorem find_mentor_first_fit:
  assumes "list_all (\<lambda>x. \<not> mentor_matches imm ex x) pre" and "mentor_matches imm ex m"
  shows "find_mentor (pre @ m # post) (ImmigrantObj imm) (StrObj ex) now =
    (pre @ m\<lparr>vol_availability := False\<rparr> # post,
     ImmigrantObj (imm\<lparr>imm_progress_log := imm_progress_log imm @
        [\<lparr>log_session_type = ''Mentor Matched'', log_details = ''Matched with '' @ vol_name m,
          log_timestamp = now\<rparr>]\<rparr>),
     [SaveData (pre @ m\<lparr>vol_availability := False\<rparr> # post),
      ProgressUpdated ''Mentor Matched'' (''Matched with '' @ vol_name m) now],
     Some (m\<lparr>vol_availability := False\<rparr>))"
  using find_mentor_match[OF find_mentor_loop_first_match[OF assms], of post now] by simp

theorem find_mentor_first_fit_witness:
  "list_all (\<lambda>x. \<not> mentor_matches
       (Immigrant ''Lina'' ''lina@example.com'' ''turkish'' ''Spanish'' ''San Jose'' [''Language Practice''])
       ''Language'' x)
     [Volunteer ''Alice Smith'' ''alice.smith@example.com'' ''language'' [''english'', ''spanish''] False] \<and>
   mentor_matches
     (Immigrant ''Lina'' ''lina@example.com'' ''turkish'' ''Spanish'' ''San Jose'' [''Language Practice''])
     ''Language''
     (Volunteer ''Juan Perez'' ''juan.perez@example.com'' ''language'' [''spanish'', ''english''] True) \<and>
   find_mentor
     [Volunteer ''Alice Smith'' ''alice.smith@example.com'' ''language'' [''english'', ''spanish''] False,
      Volunteer ''Juan Perez'' ''juan.perez@example.com'' ''language'' [''spanish'', ''english''] True,
      Volunteer ''Mai Nguyen'' ''mai.nguyen@example.com'' ''language'' [''spanish''] True]
     (ImmigrantObj
       (Immigrant ''Lina'' ''lina@example.com'' ''turkish'' ''Spanish'' ''San Jose'' [''Language Practice'']))
     (StrObj ''Language'') ''2024-12-01 10:00:00''
   = ([Volunteer ''Alice Smith'' ''alice.smith@example.com'' ''language'' [''english'', ''spanish''] False,
       Volunteer ''Juan Perez'' ''juan.perez@example.com'' ''language'' [''spanish'', ''english''] False,
       Volunteer ''Mai Nguyen'' ''mai.nguyen@example.com'' ''language'' [''spanish''] True],
      ImmigrantObj
        ((Immigrant ''Lina'' ''lina@example.com'' ''turkish'' ''Spanish'' ''San Jose'' [''Language Practice''])
           \<lparr>imm_progress_log :=
              [\<lparr>log_session_type = ''Mentor Matched'', log_details = ''Matched with Juan Perez'',
                log_timestamp = ''2024-12-01 10:00:00''\<rparr>]\<rparr>),
      [SaveData
         [Volunteer ''Alice Smith'' ''alice.smith@example.com'' ''language'' [''english'', ''spanish''] False,
          Volunteer ''Juan Perez'' ''juan.perez@example.com'' ''language'' [''spanish'', ''english''] False,
          Volunteer ''Mai Nguyen'' ''mai.nguyen@example.com'' ''language'' [''spanish''] True],
       ProgressUpdated ''Mentor Matched'' ''Matched with Juan Perez'' ''2024-12-01 10:00:00''],
      Some (Volunteer ''Juan Perez'' ''juan.perez@example.com'' ''language'' [''spanish'', ''english''] False))"
proof -
  let ?I = "Immigrant ''Lina'' ''lina@example.com'' ''turkish'' ''Spanish'' ''San Jose'' [''Language Practice'']"
  let ?A = "Volunteer ''Alice Smith'' ''alice.smith@example.com'' ''language'' [''english'', ''spanish''] False"
  let ?J = "Volunteer ''Juan Perez'' ''juan.perez@example.com'' ''language'' [''spanish'', ''english''] True"
  let ?M = "Volunteer ''Mai Nguyen'' ''mai.nguyen@example.com'' ''language'' [''spanish''] True"
  have h1: "list_all (\<lambda>x. \<not> mentor_matches ?I ''Language'' x) [?A]" by code_simp
  have h2: "mentor_matches ?I ''Language'' ?J" by code_simp
  have r: "find_mentor ([?A] @ ?J # [?M]) (ImmigrantObj ?I) (StrObj ''Language'') ''2024-12-01 10:00:00'' =
    ([?A] @ ?J\<lparr>vol_availability := False\<rparr> # [?M],
     ImmigrantObj (?I\<lparr>imm_progress_log := imm_progress_log ?I @
        [\<lparr>log_session_type = ''Mentor Matched'', log_details = ''Matched with '' @ vol_name ?J,
          log_timestamp = ''2024-12-01 10:00:00''\<rparr>]\<rparr>),
     [SaveData ([?A] @ ?J\<lparr>vol_availability := False\<rparr> # [?M]),
      ProgressUpdated ''Mentor Matched'' (''Matched with '' @ vol_name ?J) ''2024-12-01 10:00:00''],
     Some (?J\<lparr>vol_availability := False\<rparr>))"
    by (rule find_mentor_first_fit[OF h1 h2])
  have e: "?J\<lparr>vol_availability := False\<rparr>
      = Volunteer ''Juan Perez'' ''juan.perez@example.com'' ''language'' [''spanish'', ''english''] False"
    "vol_name ?J = ''Juan Perez''" "imm_progress_log ?I = []"
    by (simp_all add: Volunteer_def Immigrant_def)
  have r': "find_mentor [?A, ?J, ?M] (ImmigrantObj ?I) (StrObj ''Language'') ''2024-12-01 10:00:00'' =
    ([?A, Volunteer ''Juan Perez'' ''juan.perez@example.com'' ''language'' [''spanish'', ''english''] False, ?M],
     ImmigrantObj (?I\<lparr>imm_progress_log :=
        [\<lparr>log_session_type = ''Mentor Matched'', log_details = ''Matched with Juan Perez'',
          log_timestamp = ''2024-12-01 10:00:00''\<rparr>]\<rparr>),
     [SaveData [?A, Volunteer ''Juan Perez'' ''juan.perez@example.com'' ''language'' [''spanish'', ''english''] False, ?M],
      ProgressUpdated ''Mentor Matched'' ''Matched with Juan Perez'' ''2024-12-01 10:00:00''],
     Some (Volunteer ''Juan Perez'' ''juan.perez@example.com'' ''language'' [''spanish'', ''english''] False))"
    using r unfolding e by (simp only: append.simps)
  show ?thesis by (intro conjI h1 h2 r')
qed

text \<open>
  C5: when no mentor satisfies the three conditions, the body of \<open>find_mentor\<close> raises no
  exception and the call returns \<^verbatim>\<open>None\<close>, with the mentors and the seeker as they were;
  it prints that no mentor is available.
\<close>

theorem find_mentor_no_match_no_change:
  assumes "list_all (\<lambda>x. \<not> mentor_matches imm ex x) mentors"
  shows "find_mentor_try mentors (ImmigrantObj imm) (StrObj ex) now =
           Inr (mentors, ImmigrantObj imm, [NoMentorAvailable], None) \<and>
         find_mentor mentors (ImmigrantObj imm) (StrObj ex) now =
           (mentors, ImmigrantObj imm, [NoMentorAvailable], None)"
  using find_mentor_no_match[OF find_mentor_loop_no_match[OF assms]] by simp

theorem find_mentor_no_match_no_change_witness:
  "list_all (\<lambda>x. \<not> mentor_matches
       (Immigrant ''Lina'' ''lina@example.com'' ''turkish'' ''spanish'' ''San Jose'' [''Language Practice''])
       ''language'' x)
     [Volunteer ''Alice Smith'' ''alice.smith@example.com'' ''language'' [''english'', ''spanish''] False,
      Volunteer ''Dana Lee'' ''dana.lee@example.com'' ''health'' [''spanish''] True,
      Volunteer ''Mai Nguyen'' ''mai.nguyen@example.com'' ''language'' [''vietnamese'', ''english''] True] \<and>
   find_mentor
     [Volunteer ''Alice Smith'' ''alice.smith@example.com'' ''language'' [''english'', ''spanish''] False,
      Volunteer ''Dana Lee'' ''dana.lee@example.com'' ''health'' [''spanish''] True,
      Volunteer ''Mai Nguyen'' ''mai.nguyen@example.com'' ''language'' [''vietnamese'', ''english''] True]
     (ImmigrantObj
       (Immigrant ''Lina'' ''lina@example.com'' ''turkish'' ''spanish'' ''San Jose'' [''Language Practice'']))
     (StrObj ''language'') ''2024-12-01 10:00:00''
   = ([Volunteer ''Alice Smith'' ''alice.smith@example.com'' ''language'' [''english'', ''spanish''] False,
       Volunteer ''Dana Lee'' ''dana.lee@example.com'' ''health'' [''spanish''] True,
       Volunteer ''Mai Nguyen'' ''mai.nguyen@example.com'' ''language'' [''vietnamese'', ''english''] True],
      ImmigrantObj
        (Immigrant ''Lina'' ''lina@example.com'' ''turkish'' ''spanish'' ''San Jose'' [''Language Practice'']),
      [NoMentorAvailable], None)"
proof -
  let ?I = "Immigrant ''Lina'' ''lina@example.com'' ''turkish'' ''spanish'' ''San Jose'' [''Language Practice'']"
  let ?ms = "[Volunteer ''Alice Smith'' ''alice.smith@example.com'' ''language'' [''english'', ''spanish''] False,
      Volunteer ''Dana Lee'' ''dana.lee@example.com'' ''health'' [''spanish''] True,
      Volunteer ''Mai Nguyen'' ''mai.nguyen@example.com'' ''language'' [''vietnamese'', ''english''] True]"
  have h: "list_all (\<lambda>x. \<not> mentor_matches ?I ''language'' x) ?ms" by code_simp
  have r: "find_mentor ?ms (ImmigrantObj ?I) (StrObj ''language'') ''2024-12-01 10:00:00''
      = (?ms, ImmigrantObj ?I, [NoMentorAvailable], None)"
    by (rule conjunct2[OF find_mentor_no_match_no_change[OF h]])
  show ?thesis by (intro conjI h r)
qed

text \<open>
  C7, as the code has it: a mentor that \<open>find_mentor\<close> returns was available before the
  call; the call makes this one mentor unavailable and appends one match event that
  references it to the log of the seeker who asked. When every mentor is unavailable the
  call returns \<^verbatim>\<open>None\<close> and changes nothing. \<open>set_availability\<close> sets the flag to
  the status it is given, so it makes a mentor available again.
\<close>

theorem unavailable_mentor_not_matched:
  "(find_mentor mentors (ImmigrantObj imm) (StrObj ex) now = (mentors', imm', out, Some r) \<longrightarrow>
      (\<exists>i < length mentors. vol_availability (mentors ! i) \<and>
          r = (mentors ! i)\<lparr>vol_availability := False\<rparr> \<and> mentors' = mentors[i := r] \<and>
          (\<exists>e. imm' = ImmigrantObj (imm\<lparr>imm_progress_log := imm_progress_log imm @ [e]\<rparr>) \<and>
               is_match_event r e))) \<and>
   (list_all (\<lambda>m. \<not> vol_availability m) mentors \<longrightarrow>
      find_mentor mentors (ImmigrantObj imm) (StrObj ex) now =
        (mentors, ImmigrantObj imm, [NoMentorAvailable], None)) \<and>
   vol_availability (fst (set_availability m status)) = status"
proof (intro conjI impI)
  assume res: "find_mentor mentors (ImmigrantObj imm) (StrObj ex) now = (mentors', imm', out, Some r)"
  show "\<exists>i < length mentors. vol_availability (mentors ! i) \<and>
          r = (mentors ! i)\<lparr>vol_availability := False\<rparr> \<and> mentors' = mentors[i := r] \<and>
          (\<exists>e. imm' = ImmigrantObj (imm\<lparr>imm_progress_log := imm_progress_log imm @ [e]\<rparr>) \<and>
               is_match_event r e)"
  proof (cases "find_mentor_loop mentors imm ex")
    case None
    from find_mentor_no_match(2)[OF None, of now] res show ?thesis by simp
  next
    case (Some p)
    obtain ms' r' where p: "p = (ms', r')" by (cases p)
    note loop = Some[unfolded p]
    from find_mentor_match[OF loop, of now] res
    have eqs: "mentors' = ms'" "r = r'"
      "imm' = ImmigrantObj (imm\<lparr>imm_progress_log := imm_progress_log imm @
        [\<lparr>log_session_type = ''Mentor Matched'', log_details = ''Matched with '' @ vol_name r',
          log_timestamp = now\<rparr>]\<rparr>)"
      by simp_all
    from find_mentor_loop_Some[OF loop] obtain pre m post where
      d: "mentors = pre @ m # post" "mentor_matches imm ex m"
         "r' = m\<lparr>vol_availability := False\<rparr>" "ms' = pre @ r' # post"
      by blast
    let ?e = "\<lparr>log_session_type = ''Mentor Matched'', log_details = ''Matched with '' @ vol_name r',
          log_timestamp = now\<rparr>"
    have i: "length pre < length mentors" "mentors ! length pre = m" using d(1) by simp_all
    have av: "vol_availability m" using d(2) by (simp add: mentor_matches_def)
    have upd: "mentors[length pre := r'] = pre @ r' # post" using d(1) by simp
    have ev: "is_match_event r' ?e" by (simp add: is_match_event_def)
    show ?thesis
      using i av upd ev d(3,4) eqs by (intro exI[of _ "length pre"]) auto
  qed
next
  assume "list_all (\<lambda>m. \<not> vol_availability m) mentors"
  then have "list_all (\<lambda>x. \<not> mentor_matches imm ex x) mentors"
    by (auto simp: list_all_iff mentor_matches_def)
  then show "find_mentor mentors (ImmigrantObj imm) (StrObj ex) now =
        (mentors, ImmigrantObj imm, [NoMentorAvailable], None)"
    using find_mentor_no_match(2)[OF find_mentor_loop_no_match] by blast
next
  show "vol_availability (fst (set_availability m status)) = status"
    by (simp add: set_availability_def)
qed

theorem unavailable_mentor_not_matched_witness:
  "find_mentor
     [Volunteer ''Alice Smith'' ''alice.smith@example.com'' ''language'' [''spanish''] False,
      Volunteer ''Juan Perez'' ''juan.perez@example.com'' ''language'' [''spanish''] True]
     (ImmigrantObj (Immigrant ''Lina'' ''lina@example.com'' ''turkish'' ''spanish'' ''San Jose'' []))
     (StrObj ''language'') ''2024-12-01 10:00:00''
   = ([Volunteer ''Alice Smith'' ''alice.smith@example.com'' ''language'' [''spanish''] False,
       Volunteer ''Juan Perez'' ''juan.perez@example.com'' ''language'' [''spanish''] False],
      ImmigrantObj
        ((Immigrant ''Lina'' ''lina@example.com'' ''turkish'' ''spanish'' ''San Jose'' [])
           \<lparr>imm_progress_log :=
              [\<lparr>log_session_type = ''Mentor Matched'', log_details = ''Matched with Juan Perez'',
                log_timestamp = ''2024-12-01 10:00:00''\<rparr>]\<rparr>),
      [SaveData
         [Volunteer ''Alice Smith'' ''alice.smith@example.com'' ''language'' [''spanish''] False,
          Volunteer ''Juan Perez'' ''juan.perez@example.com'' ''language'' [''spanish''] False],
       ProgressUpdated ''Mentor Matched'' ''Matched with Juan Perez'' ''2024-12-01 10:00:00''],
      Some (Volunteer ''Juan Perez'' ''juan.perez@example.com'' ''language'' [''spanish''] False)) \<and>
   (\<exists>i < length
        [Volunteer ''Alice Smith'' ''alice.smith@example.com'' ''language'' [''spanish''] False,
         Volunteer ''Juan Perez'' ''juan.perez@example.com'' ''language'' [''spanish''] True].
      vol_availability
        ([Volunteer ''Alice Smith'' ''alice.smith@example.com'' ''language'' [''spanish''] False,
          Volunteer ''Juan Perez'' ''juan.perez@example.com'' ''language'' [''spanish''] True] ! i) \<and>
      Volunteer ''Juan Perez'' ''juan.perez@example.com'' ''language'' [''spanish''] False
        = ([Volunteer ''Alice Smith'' ''alice.smith@example.com'' ''language'' [''spanish''] False,
            Volunteer ''Juan Perez'' ''juan.perez@example.com'' ''language'' [''spanish''] True] ! i)
            \<lparr>vol_availability := False\<rparr>)"
proof -
  let ?I = "Immigrant ''Lina'' ''lina@example.com'' ''turkish'' ''spanish'' ''San Jose'' []"
  let ?A = "Volunteer ''Alice Smith'' ''alice.smith@example.com'' ''language'' [''spanish''] False"
  let ?J = "Volunteer ''Juan Perez'' ''juan.perez@example.com'' ''language'' [''spanish''] True"
  let ?J' = "Volunteer ''Juan Perez'' ''juan.perez@example.com'' ''language'' [''spanish''] False"
  let ?I' = "ImmigrantObj (?I\<lparr>imm_progress_log :=
              [\<lparr>log_session_type = ''Mentor Matched'', log_details = ''Matched with Juan Perez'',
                log_timestamp = ''2024-12-01 10:00:00''\<rparr>]\<rparr>)"
  let ?out = "[SaveData [?A, ?J'],
       ProgressUpdated ''Mentor Matched'' ''Matched with Juan Perez'' ''2024-12-01 10:00:00'']"
  have run: "find_mentor [?A, ?J] (ImmigrantObj ?I) (StrObj ''language'') ''2024-12-01 10:00:00''
      = ([?A, ?J'], ?I', ?out, Some ?J')"
    by code_simp
  note t = unavailable_mentor_not_matched[of "[?A, ?J]" ?I "''language''" "''2024-12-01 10:00:00''"
      "[?A, ?J']" ?I' ?out ?J']
  have "\<exists>i < length [?A, ?J]. vol_availability ([?A, ?J] ! i) \<and>
          ?J' = ([?A, ?J] ! i)\<lparr>vol_availability := False\<rparr> \<and> [?A, ?J'] = [?A, ?J][i := ?J'] \<and>
          (\<exists>e. ?I' = ImmigrantObj (?I\<lparr>imm_progress_log := imm_progress_log ?I @ [e]\<rparr>) \<and>
               is_match_event ?J' e)"
    by (rule mp[OF conjunct1[OF t] run])
  then have ex: "\<exists>i < length [?A, ?J]. vol_availability ([?A, ?J] ! i) \<and>
          ?J' = ([?A, ?J] ! i)\<lparr>vol_availability := False\<rparr>"
    by blast
  show ?thesis by (intro conjI run ex)
qed

text \<open>
  A volunteer who registers as unavailable is in the registry with no match event in any
  log.
\<close>

theorem unavailable_without_match_event:
  "reachable \<lparr>sys_mentors =
       [Volunteer ''Dana Lee'' ''dana.lee@example.com'' ''health'' [''korean'', ''english''] False],
     sys_immigrants = []\<rparr> \<and>
   \<not> one_match_event_each \<lparr>sys_mentors =
       [Volunteer ''Dana Lee'' ''dana.lee@example.com'' ''health'' [''korean'', ''english''] False],
     sys_immigrants = []\<rparr>"
proof
  have "reachable (\<lparr>sys_mentors = [], sys_immigrants = []\<rparr>\<lparr>sys_mentors :=
      fst (add_mentor (sys_mentors \<lparr>sys_mentors = [], sys_immigrants = []\<rparr>)
        (VolunteerObj (Volunteer ''Dana Lee'' ''dana.lee@example.com'' ''health''
           [''korean'', ''english''] False)) False)\<rparr>)"
    by (rule reachable_register_volunteer[OF reachable_init])
  then show "reachable \<lparr>sys_mentors =
       [Volunteer ''Dana Lee'' ''dana.lee@example.com'' ''health'' [''korean'', ''english''] False],
     sys_immigrants = []\<rparr>"
    by (simp add: add_mentor_def add_mentor_try_def)
next
  show "\<not> one_match_event_each \<lparr>sys_mentors =
       [Volunteer ''Dana Lee'' ''dana.lee@example.com'' ''health'' [''korean'', ''english''] False],
     sys_immigrants = []\<rparr>"
    by (simp add: one_match_event_each_def match_events_def Volunteer_def)
qed

end
